theory Spec2Isabelle
  imports Complex_Main "HOL-Library.Word"
begin

section \<open>Web serial terminal: log store, hex converters, senders\<close>

text \<open>
  A shallow embedding of the serial terminal application (the \<open>App\<close> component and
  \<open>utils/converters\<close>). JavaScript values are modelled as follows.
  \<^item> A \<open>Uint8Array\<close> is a list of 8-bit words.
  \<^item> A string is the list of its UTF-16 code units (16-bit words), which is what
    \<open>length\<close>, \<open>substring\<close>, \<open>+\<close> and a regular expression without the
    \<open>u\<close> flag work on. ASCII literals are written through \<open>str\<close>.
  \<^item> React state and refs of \<open>App\<close> are the fields of the record \<open>AppState\<close>; a
    state setter is a record update. The ref \<open>isPausedRef\<close> is kept equal to the state
    \<open>isPaused\<close> by an effect, so \<open>setIsPaused\<close> writes both.
  \<^item> What the program does to the outside (writes to the port, progress callbacks,
    timer delays) is appended to the field \<open>trace\<close>.
  \<^item> What the outside decides (\<open>Math.random\<close>, \<open>new Date()\<close>, whether a write to the
    device is rejected) is read from the fields \<open>entropy\<close> and \<open>writeError\<close>.
  \<^item> A handler or loop that runs across renders keeps the constants of the render
    that created it. Where such a constant is read later, it is modelled apart from
    the state: \<open>readLoopFraming\<close> for the read loop, \<open>isPausedC\<close> for a file send.
  \<^item> A finite number is the rational it denotes; the result of an arithmetic
    operation on numbers is rounded to the nearest double (\<open>toDouble\<close>).
\<close>

subsection \<open>Bytes and strings\<close>

type_synonym byte = "8 word"
type_synonym bytes = "byte list"
type_synonym jschar = "16 word"
type_synonym jsstring = "jschar list"

definition str :: "string \<Rightarrow> jsstring" where
  "str s = map (\<lambda>c. of_nat (of_char c)) s"

text \<open>
  \<open>xs.slice(start, end)\<close> of arrays and typed arrays, for integral arguments: a negative
  index counts from the end, both indices are clamped to the length, and an empty range
  gives the empty array. \<open>xs.slice(start)\<close> is \<open>slice_js xs start (length xs)\<close>.
\<close>

definition slice_js :: "'a list \<Rightarrow> int \<Rightarrow> int \<Rightarrow> 'a list" where
  "slice_js xs start end =
     (let len = int (length xs);
          k = (if start < 0 then max (len + start) 0 else min start len);
          final = (if end < 0 then max (len + end) 0 else min end len)
      in take (nat (final - k)) (drop (nat k) xs))"

subsection \<open>Log entries and application state\<close>

text \<open>
  The kinds \<open>'rx'\<close>, \<open>'tx'\<close>, \<open>'info'\<close> and \<open>'error'\<close> of \<open>LogEntry['type']\<close>.
\<close>

datatype LogType = Rx | Tx | Info | Error

text \<open>
  A \<open>LogEntry\<close> object. The fields \<open>id\<close>, \<open>type\<close>, \<open>data\<close> and \<open>text\<close> carry the
  prefix \<open>log_\<close> here. The terminal's status bar reads a field \<open>byteCount\<close> of every
  entry; a field that an object does not have reads as \<open>undefined\<close>, which is \<open>None\<close>.
\<close>

record LogEntry =
  log_id :: jsstring
  log_timestamp :: nat
  log_type :: LogType
  log_data :: bytes
  log_text :: jsstring
  log_byteCount :: "nat option"

datatype effect = Write bytes | Progress int | Delay rat

text \<open>
  \<open>port\<close> is \<open>None\<close> for \<open>null\<close>; an open port is described by whether its
  \<open>readable\<close> and \<open>writable\<close> streams are present.
\<close>

record SerialPort =
  readable :: bool
  writable :: bool

text \<open>
  \<open>baudRate\<close> is \<open>config.baudRate\<close>; the other fields of \<open>config\<close> only travel to
  \<open>port.open\<close>. \<open>readLoopFraming\<close> is the \<open>isAutoLineBreak\<close> of the \<open>addLog\<close> that
  the running read loop holds: \<open>readLoop\<close> is started once, by \<open>connect\<close>, and calls
  the \<open>addLog\<close> of the render in which \<open>connect\<close> ran.
\<close>

record AppState =
  port :: "SerialPort option"
  isConnected :: bool
  isAutoLineBreak :: bool
  isPaused :: bool
  logs :: "LogEntry list"
  lineFrequency :: nat
  readerRef :: bool
  keepReadingRef :: bool
  isPausedRef :: bool
  newlineCountRef :: nat
  lastFrequencyUpdateRef :: nat
  trace :: "effect list"
  entropy :: "nat \<Rightarrow> jsstring \<times> nat"
  drawn :: nat
  writeError :: "nat \<Rightarrow> jsstring option"
  baudRate :: nat
  readLoopFraming :: bool

text \<open>The state of a freshly mounted \<open>App\<close> at time \<open>now\<close>.\<close>

definition initialState :: "(nat \<Rightarrow> jsstring \<times> nat) \<Rightarrow> (nat \<Rightarrow> jsstring option) \<Rightarrow> nat \<Rightarrow> AppState" where
  "initialState ent werr now =
     \<lparr> port = None, isConnected = False, isAutoLineBreak = False, isPaused = False,
       logs = [], lineFrequency = 0, readerRef = False, keepReadingRef = True,
       isPausedRef = False, newlineCountRef = 0, lastFrequencyUpdateRef = now,
       trace = [], entropy = ent, drawn = 0, writeError = werr, baudRate = 115200,
       readLoopFraming = False \<rparr>"

definition setIsPaused :: "bool \<Rightarrow> AppState \<Rightarrow> AppState" where
  "setIsPaused v s = s\<lparr>isPaused := v, isPausedRef := v\<rparr>"

subsection \<open>The log store: \<open>addLog\<close>\<close>

text \<open>\<open>(newText.match(/\n/g) || []).length\<close>: the number of line feeds in the text.\<close>

definition newlineCount :: "jsstring \<Rightarrow> nat" where
  "newlineCount newText = length (filter (\<lambda>c. c = 10) newText)"

text \<open>
  The entry that \<open>addLog\<close> creates. Its identifier
  (\<open>Math.random().toString(36).substr(2, 9)\<close>) and its timestamp (\<open>new Date()\<close>) are
  the next draw from \<open>entropy\<close>. The object literal has no \<open>byteCount\<close>.
\<close>

definition newLog :: "LogType \<Rightarrow> bytes \<Rightarrow> jsstring \<Rightarrow> AppState \<Rightarrow> LogEntry" where
  "newLog type data newText s =
     \<lparr> log_id = fst (entropy s (drawn s)),
       log_timestamp = snd (entropy s (drawn s)),
       log_type = type, log_data = data, log_text = newText,
       log_byteCount = None \<rparr>"

text \<open>
  \<open>addLog(type, data, newText)\<close>. The updater passed to \<open>setLogs\<close> is applied to the
  current log list \<open>prev\<close>; the two nested tests of the merge branch are one
  conjunction here, evaluated left to right.
\<close>

definition addLog :: "LogType \<Rightarrow> bytes \<Rightarrow> jsstring \<Rightarrow> AppState \<Rightarrow> AppState" where
  "addLog type data newText s =
     (let prev = logs s in
      if \<not> isAutoLineBreak s \<and> type = Rx \<and> length prev > 0
         \<and> log_type (prev ! (length prev - 1)) = Rx
      then
        (let lastLog = prev ! (length prev - 1);
             combinedData = log_data lastLog @ data;
             updatedLogs = prev[length prev - 1 :=
                 lastLog\<lparr>log_data := combinedData, log_text := log_text lastLog @ newText\<rparr>]
         in s\<lparr>logs := updatedLogs,
               newlineCountRef := (if type = Rx
                                   then newlineCountRef s + newlineCount newText
                                   else newlineCountRef s)\<rparr>)
      else
        (let s1 = (if type = Rx
                   then s\<lparr>newlineCountRef := newlineCountRef s + newlineCount newText\<rparr>
                   else s);
             nextLogs = prev @ [newLog type data newText s]
         in s1\<lparr>logs := (if length nextLogs > 3000
                          then slice_js nextLogs (- 3000) (int (length nextLogs))
                          else nextLogs),
                drawn := drawn s + 1\<rparr>))"

text \<open>
  The byte totals of the terminal's status bar:
  \<open>logs.filter(l => l.type === t).reduce((sum, l) => sum + l.byteCount, 0)\<close>. Adding
  \<open>undefined\<close> gives \<open>NaN\<close>, and \<open>NaN\<close> stays; both are \<open>None\<close>.
\<close>

definition byteTotal :: "LogType \<Rightarrow> LogEntry list \<Rightarrow> nat option" where
  "byteTotal t ls =
     foldl (\<lambda>sum l. case (sum, log_byteCount l) of
                       (Some a, Some b) \<Rightarrow> Some (a + b)
                     | _ \<Rightarrow> None)
       (Some 0) (filter (\<lambda>l. log_type l = t) ls)"

text \<open>
  A run of appends; every operation carries the value of the framing switch
  \<open>isAutoLineBreak\<close> in force when it happens.
\<close>

fun appendAll :: "(bool \<times> LogType \<times> bytes \<times> jsstring) list \<Rightarrow> AppState \<Rightarrow> AppState" where
  "appendAll [] s = s"
| "appendAll ((framing, type, data, newText) # ops) s =
     appendAll ops (addLog type data newText (s\<lparr>isAutoLineBreak := framing\<rparr>))"

text \<open>
  The \<open>addLog\<close> that the read loop holds: the one of the render in which \<open>connect\<close>
  ran, whose \<open>isAutoLineBreak\<close> is \<open>readLoopFraming\<close>. It updates the current log, as
  every \<open>addLog\<close> does, and leaves the framing switch itself alone.
\<close>

definition readLoopAddLog :: "LogType \<Rightarrow> bytes \<Rightarrow> jsstring \<Rightarrow> AppState \<Rightarrow> AppState" where
  "readLoopAddLog type data newText s =
     (addLog type data newText (s\<lparr>isAutoLineBreak := readLoopFraming s\<rparr>))
       \<lparr>isAutoLineBreak := isAutoLineBreak s\<rparr>"

text \<open>
  One turn of the inner loop of \<open>readLoop\<close> for a chunk \<open>value\<close> that the reader
  delivers; \<open>textChunk\<close> is what the platform's \<open>TextDecoder\<close> makes of it. While
  paused the chunk is dropped.
\<close>

definition readChunk :: "bytes \<Rightarrow> jsstring \<Rightarrow> AppState \<Rightarrow> AppState" where
  "readChunk value textChunk s =
     (if \<not> isPausedRef s then readLoopAddLog Rx value textChunk s else s)"

text \<open>
  A run of consecutive receive appends, one chunk of bytes with its decoded text
  after the other, with nothing else in between.
\<close>

fun rxAppends :: "(bytes \<times> jsstring) list \<Rightarrow> AppState \<Rightarrow> AppState" where
  "rxAppends [] s = s"
| "rxAppends ((data, newText) # chunks) s = rxAppends chunks (readLoopAddLog Rx data newText s)"

subsection \<open>Hex converters\<close>

text \<open>The digit characters \<open>0\<close>..\<open>9\<close>, \<open>a\<close>..\<open>z\<close> that \<open>toString(radix)\<close> emits.\<close>

definition digitChar :: "nat \<Rightarrow> jschar" where
  "digitChar d = (if d < 10 then of_nat (48 + d) else of_nat (87 + d))"

text \<open>\<open>n.toString(radix)\<close> for a natural number below \<open>2^53\<close>.\<close>

fun numToString :: "nat \<Rightarrow> nat \<Rightarrow> jsstring" where
  "numToString radix n =
     (if radix < 2 \<or> n < radix then [digitChar n]
      else numToString radix (n div radix) @ [digitChar (n mod radix)])"

declare numToString.simps [simp del]

text \<open>\<open>s.padStart(n, c)\<close> for a one-character pad string.\<close>

definition padStart :: "nat \<Rightarrow> jschar \<Rightarrow> jsstring \<Rightarrow> jsstring" where
  "padStart n c s = replicate (n - length s) c @ s"

text \<open>
  \<open>s.toUpperCase()\<close> on ASCII text, which is all that \<open>toString(16)\<close> and the pad
  character produce: the letters \<open>a\<close>..\<open>z\<close> move to \<open>A\<close>..\<open>Z\<close>.
\<close>

definition toUpperCase :: "jsstring \<Rightarrow> jsstring" where
  "toUpperCase s = map (\<lambda>c. if 97 \<le> c \<and> c \<le> 122 then c - 32 else c) s"

fun join :: "jsstring \<Rightarrow> jsstring list \<Rightarrow> jsstring" where
  "join sep [] = []"
| "join sep [x] = x"
| "join sep (x # y # ys) = x @ sep @ join sep (y # ys)"

text \<open>The arrow function \<open>b => b.toString(16).padStart(2, '0').toUpperCase()\<close>.\<close>

definition hexPair :: "byte \<Rightarrow> jsstring" where
  "hexPair b = toUpperCase (padStart 2 48 (numToString 16 (unat b)))"

definition uint8ArrayToHex :: "bytes \<Rightarrow> jsstring" where
  "uint8ArrayToHex arr = join (str '' '') (map hexPair arr)"

text \<open>The upper-case digit character of a digit value, as \<open>hexPair\<close> emits it.\<close>

definition upperDigit :: "nat \<Rightarrow> jschar" where
  "upperDigit d =
     (if 97 \<le> digitChar d \<and> digitChar d \<le> 122 then digitChar d - 32 else digitChar d)"

text \<open>The character class \<open>[0-9A-Fa-f]\<close> and the value of a digit in it.\<close>

definition isHexDigit :: "jschar \<Rightarrow> bool" where
  "isHexDigit c = ((48 \<le> c \<and> c \<le> 57) \<or> (65 \<le> c \<and> c \<le> 70) \<or> (97 \<le> c \<and> c \<le> 102))"

definition hexValue :: "jschar \<Rightarrow> nat" where
  "hexValue c = (if c \<le> 57 then unat c - 48 else if c \<le> 70 then unat c - 55 else unat c - 87)"

text \<open>
  \<open>s.substring(start, end)\<close> for natural indices: both are clamped to the length and
  swapped when out of order.
\<close>

definition substring :: "jsstring \<Rightarrow> nat \<Rightarrow> nat \<Rightarrow> jsstring" where
  "substring s start end =
     (let a = min start (length s); b = min end (length s)
      in take (max a b - min a b) (drop (min a b) s))"

text \<open>
  \<open>parseInt(s, 16)\<close> on a string that starts with neither white space, a sign nor
  \<open>0x\<close> (the cleaned string holds hex digits only): the value of the longest prefix of
  hex digits, \<open>NaN\<close> (\<open>None\<close>) when that prefix is empty.
\<close>

definition parseInt16 :: "jsstring \<Rightarrow> nat option" where
  "parseInt16 s =
     (let ds = takeWhile isHexDigit s
      in if ds = [] then None else Some (foldl (\<lambda>acc c. 16 * acc + hexValue c) 0 ds))"

text \<open>Storing a number into a \<open>Uint8Array\<close> slot: modulo 256, \<open>NaN\<close> becomes 0.\<close>

definition toUint8 :: "nat option \<Rightarrow> byte" where
  "toUint8 v = (case v of None \<Rightarrow> 0 | Some n \<Rightarrow> of_nat n)"

text \<open>The message of the \<open>Error\<close> thrown by \<open>hexToUint8Array\<close>.\<close>

definition msgInvalidHex :: jsstring where
  "msgInvalidHex = [0x65e0, 0x6548, 0x7684, 0x5341, 0x516d, 0x8fdb, 0x5236, 0x5b57, 0x7b26, 0x4e32]"

text \<open>
  The \<open>for\<close> loop of \<open>hexToUint8Array\<close>, from index \<open>i\<close> on. A store beyond the
  end of a typed array is ignored, as a list update beyond the end is.
\<close>

function hexLoop :: "jsstring \<Rightarrow> nat \<Rightarrow> bytes \<Rightarrow> bytes" where
  "hexLoop cleanHex i result =
     (if i < length cleanHex
      then hexLoop cleanHex (i + 2)
             (result[i div 2 := toUint8 (parseInt16 (substring cleanHex i (i + 2)))])
      else result)"
  by pat_completeness auto
termination
  by (relation "measure (\<lambda>(cleanHex, i, result). length cleanHex - i)") auto

declare hexLoop.simps [simp del]

text \<open>\<open>hexToUint8Array\<close>; a thrown \<open>Error\<close> is \<open>Inl\<close> of its message.\<close>

definition hexToUint8Array :: "jsstring \<Rightarrow> jsstring + bytes" where
  "hexToUint8Array hex =
     (let cleanHex = filter isHexDigit hex
      in if length cleanHex mod 2 \<noteq> 0 then Inl msgInvalidHex
         else Inr (hexLoop cleanHex 0 (replicate (length cleanHex div 2) 0)))"

subsection \<open>Numbers: the progress percentage\<close>

text \<open>
  \<open>Math.round((sent / total) * 100)\<close> is computed in IEEE 754 double precision: the
  quotient is rounded to a double, the product with 100 is rounded again, and
  \<open>Math.round\<close> takes the nearest integer with ties going up. A positive double is
  written \<open>(m, e)\<close> for \<open>m * 2^e\<close>. \<open>roundDouble a b\<close> is the double nearest to the
  positive rational \<open>a / b\<close> (round to nearest, ties to even; the values met here are
  far from the subnormal and overflow ranges). Array lengths are below \<open>2^53\<close> and so
  are doubles themselves.
\<close>

function bitLength :: "int \<Rightarrow> nat" where
  "bitLength n = (if n \<le> 0 then 0 else Suc (bitLength (n div 2)))"
  by pat_completeness auto
termination
  by (relation "measure nat") auto

declare bitLength.simps [simp del]

definition floorLog2 :: "int \<Rightarrow> int \<Rightarrow> int" where
  "floorLog2 a b =
     (let d = int (bitLength a) - int (bitLength b)
      in if b * 2 ^ nat d \<le> a * 2 ^ nat (- d) then d else d - 1)"

definition roundDouble :: "int \<Rightarrow> int \<Rightarrow> int \<times> int" where
  "roundDouble a b =
     (if a = 0 then (0, 0)
      else let sh = 52 - floorLog2 a b;
               num = a * 2 ^ nat sh;
               den = b * 2 ^ nat (- sh);
               q = num div den;
               r = num mod den;
               m = (if 2 * r < den then q
                    else if den < 2 * r then q + 1
                    else if even q then q else q + 1)
           in (m, - sh))"

definition Math_round :: "int \<times> int \<Rightarrow> int" where
  "Math_round x =
     (case x of (m, e) \<Rightarrow>
        if 0 \<le> e then m * 2 ^ nat e
        else (2 * m + 2 ^ nat (- e)) div 2 ^ nat (1 - e))"

definition percent :: "nat \<Rightarrow> nat \<Rightarrow> int" where
  "percent sent totalBytes =
     (case roundDouble (int sent) (int totalBytes) of (m, e) \<Rightarrow>
        Math_round (roundDouble (m * 100 * 2 ^ nat e) (2 ^ nat (- e))))"

text \<open>
  The rational that a double \<open>(m, e)\<close> denotes, and the double nearest to a
  rational, zero and negative ones included: the result of an arithmetic operation
  whose exact value is that rational.
\<close>

definition pow2 :: "int \<Rightarrow> rat" where
  "pow2 e = (if 0 \<le> e then 2 ^ nat e else 1 / 2 ^ nat (- e))"

definition doubleValue :: "int \<times> int \<Rightarrow> rat" where
  "doubleValue x = (case x of (m, e) \<Rightarrow> of_int m * pow2 e)"

definition toDouble :: "rat \<Rightarrow> rat" where
  "toDouble x =
     (if x = 0 then 0
      else case quotient_of \<bar>x\<bar> of (a, b) \<Rightarrow> sgn x * doubleValue (roundDouble a b))"

text \<open>
  \<open>ToIntegerOrInfinity\<close>, which \<open>slice\<close> applies to its arguments: a finite number
  is truncated towards zero.
\<close>

definition toInteger :: "rat \<Rightarrow> int" where
  "toInteger x = (if 0 \<le> x then \<lfloor>x\<rfloor> else \<lceil>x\<rceil>)"

subsection \<open>Frequency meter, pause and disconnect\<close>

text \<open>The callback of the one-second interval timer, run at time \<open>now\<close>.\<close>

definition frequencyTimer :: "nat \<Rightarrow> AppState \<Rightarrow> AppState" where
  "frequencyTimer now s =
     (if int now - int (lastFrequencyUpdateRef s) \<ge> 1000
      then s\<lparr>lineFrequency := newlineCountRef s, newlineCountRef := 0,
             lastFrequencyUpdateRef := now\<rparr>
      else s)"

text \<open>
  The log messages are Chinese text, given by their UTF-16 code units: "serial port
  closed", "serial data paused" and "serial data resumed".
\<close>

definition msgClosed :: jsstring where
  "msgClosed = [0x4e32, 0x53e3, 0x5df2, 0x5173, 0x95ed]"

definition msgPaused :: jsstring where
  "msgPaused = [0x4e32, 0x53e3, 0x6570, 0x636e, 0x5df2, 0x6682, 0x505c]"

definition msgResumed :: jsstring where
  "msgResumed = [0x4e32, 0x53e3, 0x6570, 0x636e, 0x5df2, 0x6062, 0x590d]"

text \<open>\<open>disconnect\<close>, with \<open>reader.cancel()\<close> and \<open>port.close()\<close> settling.\<close>

definition disconnect :: "AppState \<Rightarrow> AppState" where
  "disconnect s =
     (let s1 = s\<lparr>keepReadingRef := False\<rparr>;
          s2 = (if readerRef s1 then s1\<lparr>readerRef := False\<rparr> else s1);
          s3 = (if port s2 \<noteq> None then s2\<lparr>port := None\<rparr> else s2);
          s4 = s3\<lparr>isConnected := False\<rparr>;
          s5 = setIsPaused False s4
      in addLog Info [] msgClosed s5)"

definition togglePause :: "AppState \<Rightarrow> AppState" where
  "togglePause s =
     (if \<not> isConnected s then s
      else let newPausedState = \<not> isPaused s;
               s1 = setIsPaused newPausedState s
           in if newPausedState then addLog Info [] msgPaused s1
              else addLog Info [] msgResumed s1)"

text \<open>
  The messages "connected: " (followed by the baud rate and " bps") and "connection
  failed: " (followed by the error's message).
\<close>

definition msgConnected :: jsstring where
  "msgConnected = [0x5df2, 0x8fde, 0x63a5, 0x3a, 0x20]"

definition msgConnectFailed :: jsstring where
  "msgConnectFailed = [0x8fde, 0x63a5, 0x5931, 0x8d25, 0x3a, 0x20]"

text \<open>
  The start of \<open>readLoop(selectedPort)\<close>, up to its first \<open>await\<close>: with a readable
  stream and \<open>keepReadingRef\<close> set it takes a reader. From here on the loop calls
  the \<open>addLog\<close> of this render, with this render's \<open>isAutoLineBreak\<close>.
\<close>

definition readLoop_start :: "SerialPort \<Rightarrow> bool \<Rightarrow> AppState \<Rightarrow> AppState" where
  "readLoop_start selectedPort isAutoLineBreakC s =
     (let s1 = s\<lparr>readLoopFraming := isAutoLineBreakC\<rparr>
      in if readable selectedPort \<and> keepReadingRef s1 then s1\<lparr>readerRef := True\<rparr> else s1)"

text \<open>
  \<open>connect\<close>. \<open>serialSupported\<close> is \<open>'serial' in navigator\<close>; \<open>outcome\<close> is what
  \<open>requestPort\<close> and \<open>open\<close> come to: the opened port, or the message of the error
  that one of them throws.
\<close>

definition connect :: "bool \<Rightarrow> jsstring + SerialPort \<Rightarrow> AppState \<Rightarrow> AppState" where
  "connect serialSupported outcome s =
     (if \<not> serialSupported then s
      else case outcome of
             Inl message \<Rightarrow> addLog Error [] (msgConnectFailed @ message) s
           | Inr selectedPort \<Rightarrow>
               (let s1 = s\<lparr>port := Some selectedPort, isConnected := True,
                           keepReadingRef := True\<rparr>;
                    s2 = addLog Info []
                           (msgConnected @ numToString 10 (baudRate s) @ str '' bps'') s1
                in readLoop_start selectedPort (isAutoLineBreak s) s2))"

subsection \<open>Sending\<close>

datatype DisplayMode = Text | Hex

datatype FileSendMode = Raw | YModem

text \<open>
  The messages of the send paths: the prefix "send failed: ", "send failed: serial
  port paused", "file send failed: serial port paused", the prefix "start sending
  file: ", the suffix " bytes)", the prefix "file send interrupted: ", "file send
  interrupted: serial port paused" and "file send finished".
\<close>

definition msgSendFailed :: jsstring where
  "msgSendFailed = [0x53d1, 0x9001, 0x5931, 0x8d25, 0x3a, 0x20]"

definition msgSendPaused :: jsstring where
  "msgSendPaused = msgSendFailed @ [0x4e32, 0x53e3, 0x5df2, 0x6682, 0x505c]"

definition msgFilePaused :: jsstring where
  "msgFilePaused = [0x6587, 0x4ef6] @ msgSendPaused"

definition msgFileStart :: jsstring where
  "msgFileStart = [0x5f00, 0x59cb, 0x53d1, 0x9001, 0x6587, 0x4ef6, 0x3a, 0x20]"

definition msgBytesUnit :: jsstring where
  "msgBytesUnit = [0x20, 0x5b57, 0x8282, 0x29]"

definition msgFileInterrupted :: jsstring where
  "msgFileInterrupted = [0x6587, 0x4ef6, 0x53d1, 0x9001, 0x4e2d, 0x65ad, 0x3a, 0x20]"

definition msgFileAborted :: jsstring where
  "msgFileAborted = msgFileInterrupted @ [0x4e32, 0x53e3, 0x5df2, 0x6682, 0x505c]"

definition msgFileDone :: jsstring where
  "msgFileDone = [0x6587, 0x4ef6, 0x53d1, 0x9001, 0x5b8c, 0x6bd5]"

text \<open>
  \<open>await writer.write(data)\<close>: the device decides, by the number of writes it has
  taken so far, whether this one is rejected (\<open>Inl\<close> of the error's message); an
  accepted write is recorded in the trace.
\<close>

definition writesOf :: "effect list \<Rightarrow> bytes list" where
  "writesOf tr = concat (map (\<lambda>e. case e of Write b \<Rightarrow> [b] | _ \<Rightarrow> []) tr)"

definition writer_write :: "bytes \<Rightarrow> AppState \<Rightarrow> jsstring + AppState" where
  "writer_write data s =
     (case writeError s (length (writesOf (trace s))) of
        Some msg \<Rightarrow> Inl msg
      | None \<Rightarrow> Inr (s\<lparr>trace := trace s @ [Write data]\<rparr>))"

text \<open>
  \<open>sendData(input, mode)\<close>. \<open>stringToUint8Array\<close> wraps the platform's
  \<open>TextEncoder\<close>, which is the parameter \<open>encode\<close>. \<open>port\<close> and \<open>isPaused\<close> are
  the values of the render the handler belongs to, which is the current state when
  the handler is called.
\<close>

definition sendData :: "(jsstring \<Rightarrow> bytes) \<Rightarrow> jsstring \<Rightarrow> DisplayMode \<Rightarrow> AppState \<Rightarrow> AppState" where
  "sendData encode input mode s =
     (if port s = None \<or> \<not> writable (the (port s)) then s
      else if isPaused s then addLog Error [] msgSendPaused s
      else case (if mode = Hex then hexToUint8Array input else Inr (encode input)) of
             Inl msg \<Rightarrow> addLog Error [] (msgSendFailed @ msg) s
           | Inr data \<Rightarrow>
               (case writer_write data s of
                  Inl msg \<Rightarrow> addLog Error [] (msgSendFailed @ msg) s
                | Inr s1 \<Rightarrow> addLog Tx data input s1))"

text \<open>
  A \<open>File\<close> with its name and the bytes that \<open>file.arrayBuffer()\<close> yields, and the
  options of a file send. \<open>throttleBytes\<close> and \<open>throttleMs\<close> are the numbers that
  the two number inputs deliver: any finite number, a fraction, zero or a negative
  one included.
\<close>

record File =
  file_name :: jsstring
  file_contents :: bytes

record SendOptions =
  mode :: FileSendMode
  throttleBytes :: rat
  throttleMs :: rat

text \<open>
  The \<open>while\<close> loop of \<open>handleFileSend\<close>. \<open>isPausedC\<close> is the constant \<open>isPaused\<close>
  of the closure: the value the state had in the render that created the handler.
  The loop suspends at \<open>await writer.write(chunk)\<close>; \<open>user n\<close> tells whether the user
  presses the pause button while the write of iteration \<open>n\<close> is pending. The result is
  the message of a thrown error, if any, and the state reached; a loop that does
  not end has no result. The end index \<open>sent + options.throttleBytes\<close> of the slice
  is a sum of numbers, which \<open>slice\<close> truncates.
\<close>

partial_function (option) sendLoop ::
  "(nat \<Rightarrow> bool) \<Rightarrow> bool \<Rightarrow> bytes \<Rightarrow> SendOptions \<Rightarrow> nat \<Rightarrow> nat \<Rightarrow> AppState
     \<Rightarrow> (jsstring option \<times> AppState) option" where
  "sendLoop user isPausedC data options n sent s =
     (if sent < length data then
        (if isPausedC then Some (None, addLog Error [] msgFileAborted s)
         else
           (let chunk = slice_js data (int sent)
                          (toInteger (toDouble (of_nat sent + throttleBytes options))) in
            case writer_write chunk s of
              Inl msg \<Rightarrow> Some (Some msg, s)
            | Inr s1 \<Rightarrow>
                (let s2 = (if user n then togglePause s1 else s1);
                     sent' = sent + length chunk;
                     s3 = s2\<lparr>trace := trace s2 @ [Progress (percent sent' (length data))]\<rparr>;
                     s4 = (if throttleMs options > 0 \<and> sent' < length data
                           then s3\<lparr>trace := trace s3 @ [Delay (throttleMs options)]\<rparr>
                           else s3)
                 in sendLoop user isPausedC data options (n + 1) sent' s4)))
      else Some (None, s))"

text \<open>\<open>handleFileSend(file, options)\<close>, with \<open>options.onProgress\<close> recorded in the trace.\<close>

definition handleFileSend :: "(nat \<Rightarrow> bool) \<Rightarrow> File \<Rightarrow> SendOptions \<Rightarrow> AppState \<Rightarrow> AppState option" where
  "handleFileSend user file options s =
     (if port s = None \<or> \<not> writable (the (port s)) then Some s
      else if isPaused s then Some (addLog Error [] msgFilePaused s)
      else
        (let isPausedC = isPaused s;
             data = file_contents file;
             totalBytes = length data;
             s1 = addLog Info []
                    (msgFileStart @ file_name file @ str '' ('' @ numToString 10 totalBytes
                       @ msgBytesUnit) s
         in case sendLoop user isPausedC data options 0 0 s1 of
              None \<Rightarrow> None
            | Some (Some msg, s2) \<Rightarrow> Some (addLog Error [] (msgFileInterrupted @ msg) s2)
            | Some (None, s2) \<Rightarrow>
                Some (if \<not> isPausedC then addLog Info [] msgFileDone s2 else s2)))"

subsection \<open>Example states\<close>

text \<open>A source of identifiers and timestamps, and a device that takes every write.\<close>

definition exampleEntropy :: "nat \<Rightarrow> jsstring \<times> nat" where
  "exampleEntropy n = (numToString 36 n, 1000 * n)"

definition neverFails :: "nat \<Rightarrow> jsstring option" where
  "neverFails n = None"

definition freshState :: AppState where
  "freshState = initialState exampleEntropy neverFails 0"

text \<open>The state once a port with both streams has been opened.\<close>

definition connectedState :: AppState where
  "connectedState =
     freshState\<lparr>port := Some \<lparr>readable = True, writable = True\<rparr>, isConnected := True,
                readerRef := True\<rparr>"

definition exampleEntry :: LogEntry where
  "exampleEntry = newLog Info [] (str ''x'') freshState"

text \<open>A store filled to its capacity.\<close>

definition fullState :: AppState where
  "fullState = connectedState\<lparr>logs := replicate 3000 exampleEntry\<rparr>"

text \<open>A store with a transmit entry followed by a receive entry.\<close>

definition twoEntries :: AppState where
  "twoEntries = addLog Rx [1] (str ''a'') (addLog Tx [2] (str ''b'') connectedState)"

text \<open>An encoder for ASCII text, and a user who never presses the pause button.\<close>

definition asciiEncode :: "jsstring \<Rightarrow> bytes" where
  "asciiEncode s = map ucast s"

definition noPress :: "nat \<Rightarrow> bool" where
  "noPress n = False"

text \<open>
  A connected state in which a line was received and counted by the timer, and two
  more line feeds have arrived since.
\<close>

definition meterBusy :: AppState where
  "meterBusy =
     addLog Rx [10, 10] [10, 10] (frequencyTimer 1000 (addLog Rx [10] [10] connectedState))"

text \<open>The connected state after the user has pressed the pause button.\<close>

definition pausedState :: AppState where
  "pausedState = togglePause connectedState"

text \<open>
  The connected state after the user has switched framing on: the read loop still
  holds the \<open>addLog\<close> of the render with framing off.
\<close>

definition framedState :: AppState where
  "framedState = connectedState\<lparr>isAutoLineBreak := True\<rparr>"

text \<open>The state after framing was switched on first and a port was opened then.\<close>

definition connectedFramed :: AppState where
  "connectedFramed =
     connect True (Inr \<lparr>readable = True, writable = True\<rparr>) (freshState\<lparr>isAutoLineBreak := True\<rparr>)"

text \<open>
  What iteration \<open>i\<close> of an undisturbed file send with a whole chunk size is
  expected to do, and the number of iterations; both are used to describe the runs
  of \<open>sendLoop\<close>.
\<close>

definition chunkEffects :: "bytes \<Rightarrow> SendOptions \<Rightarrow> nat \<Rightarrow> effect list" where
  "chunkEffects data options i =
     (let b = nat \<lfloor>throttleBytes options\<rfloor>;
          sent' = min (Suc i * b) (length data)
      in [Write (take b (drop (i * b) data)), Progress (percent sent' (length data))]
         @ (if throttleMs options > 0 \<and> sent' < length data
            then [Delay (throttleMs options)] else []))"

definition chunkCount :: "bytes \<Rightarrow> SendOptions \<Rightarrow> nat" where
  "chunkCount data options =
     (length data + nat \<lfloor>throttleBytes options\<rfloor> - 1) div nat \<lfloor>throttleBytes options\<rfloor>"

text \<open>
  A file of ten bytes sent byte by byte, with a user who presses the pause button
  while the third write is pending; and a file of 1000 bytes sent in chunks of 100
  with no delay.
\<close>

definition pressDuringThird :: "nat \<Rightarrow> bool" where
  "pressDuringThird n \<longleftrightarrow> n = 2"

definition tenBytes :: File where
  "tenBytes = \<lparr>file_name = str ''f'', file_contents = [1, 2, 3, 4, 5, 6, 7, 8, 9, 10]\<rparr>"

definition byteWise :: SendOptions where
  "byteWise = \<lparr>mode = Raw, throttleBytes = 1, throttleMs = 0\<rparr>"

definition thousandBytes :: File where
  "thousandBytes = \<lparr>file_name = str ''f'', file_contents = replicate 1000 0\<rparr>"

definition hundredWise :: SendOptions where
  "hundredWise = \<lparr>mode = Raw, throttleBytes = 100, throttleMs = 0\<rparr>"

section \<open>Properties of the log store\<close>

lemma slice_js_tail:
  "0 < n \<Longrightarrow> slice_js xs (- int n) (int (length xs)) = drop (length xs - n) xs"
  by (auto simp: slice_js_def Let_def max_def nat_diff_distrib')

lemma nth_last_index: "xs \<noteq> [] \<Longrightarrow> xs ! (length xs - Suc 0) = last xs"
  by (simp add: last_conv_nth)

lemma update_last_index: "xs \<noteq> [] \<Longrightarrow> xs[length xs - Suc 0 := x] = butlast xs @ [x]"
  by (induction xs) (auto split: nat.splits)

lemma cap_drop:
  "(if length xs > 3000 then slice_js xs (- 3000) (int (length xs)) else xs)
     = drop (length xs - 3000) xs"
  using slice_js_tail [of 3000 xs] by simp

lemma logs_addLog_merge:
  assumes "\<not> isAutoLineBreak s" "type = Rx" "logs s \<noteq> []" "log_type (last (logs s)) = Rx"
  shows "logs (addLog type data newText s) =
           butlast (logs s) @
             [(last (logs s))\<lparr>log_data := log_data (last (logs s)) @ data,
                              log_text := log_text (last (logs s)) @ newText\<rparr>]"
  using assms by (simp add: addLog_def Let_def nth_last_index update_last_index)

lemma logs_addLog_new:
  assumes "\<not> (\<not> isAutoLineBreak s \<and> type = Rx \<and> logs s \<noteq> [] \<and> log_type (last (logs s)) = Rx)"
  shows "logs (addLog type data newText s) =
           drop (length (logs s) - 2999) (logs s @ [newLog type data newText s])"
proof -
  have c: "\<not> (\<not> isAutoLineBreak s \<and> type = Rx \<and> length (logs s) > 0
             \<and> log_type (logs s ! (length (logs s) - 1)) = Rx)"
    using assms nth_last_index [of "logs s"] by auto
  have "logs (addLog type data newText s) =
          (if length (logs s @ [newLog type data newText s]) > 3000
           then slice_js (logs s @ [newLog type data newText s]) (- 3000)
                  (int (length (logs s @ [newLog type data newText s])))
           else logs s @ [newLog type data newText s])"
    unfolding addLog_def Let_def if_not_P [OF c] by simp
  also have "\<dots> = drop (length (logs s @ [newLog type data newText s]) - 3000)
                    (logs s @ [newLog type data newText s])"
    by (rule cap_drop)
  finally show ?thesis by simp
qed

lemma logs_addLog:
  "logs (addLog type data newText s) =
     (if \<not> isAutoLineBreak s \<and> type = Rx \<and> logs s \<noteq> [] \<and> log_type (last (logs s)) = Rx
      then butlast (logs s) @
             [(last (logs s))\<lparr>log_data := log_data (last (logs s)) @ data,
                              log_text := log_text (last (logs s)) @ newText\<rparr>]
      else drop (length (logs s) - 2999) (logs s @ [newLog type data newText s]))"
  using logs_addLog_merge [of s type data newText] logs_addLog_new [of s type data newText]
  by (simp del: drop_append)

lemma length_logs_addLog:
  "length (logs s) \<le> 3000 \<Longrightarrow> length (logs (addLog type data newText s)) \<le> 3000"
  by (auto simp: logs_addLog)

lemma addLog_other_fields [simp]:
  "trace (addLog type data newText s) = trace s"
  "port (addLog type data newText s) = port s"
  "isConnected (addLog type data newText s) = isConnected s"
  "isPaused (addLog type data newText s) = isPaused s"
  "isPausedRef (addLog type data newText s) = isPausedRef s"
  "isAutoLineBreak (addLog type data newText s) = isAutoLineBreak s"
  "lineFrequency (addLog type data newText s) = lineFrequency s"
  "writeError (addLog type data newText s) = writeError s"
  "entropy (addLog type data newText s) = entropy s"
  "lastFrequencyUpdateRef (addLog type data newText s) = lastFrequencyUpdateRef s"
  "readLoopFraming (addLog type data newText s) = readLoopFraming s"
  "baudRate (addLog type data newText s) = baudRate s"
  by (simp_all add: addLog_def Let_def)

lemma newlineCountRef_addLog:
  "newlineCountRef (addLog type data newText s) =
     (if type = Rx then newlineCountRef s + newlineCount newText else newlineCountRef s)"
  by (simp add: addLog_def Let_def)

lemma length_logs_appendAll:
  "length (logs s) \<le> 3000 \<Longrightarrow> length (logs (appendAll ops s)) \<le> 3000"
proof (induction ops arbitrary: s)
  case Nil
  then show ?case by simp
next
  case (Cons op ops)
  obtain framing type data newText where op: "op = (framing, type, data, newText)"
    by (cases op) auto
  have "length (logs (addLog type data newText (s\<lparr>isAutoLineBreak := framing\<rparr>))) \<le> 3000"
    using Cons.prems by (intro length_logs_addLog) simp
  then show ?case
    using Cons.IH by (simp add: op)
qed

text \<open>
  Claim C1. Starting from a store of at most 3000 entries (the empty store of a fresh
  application in particular), the store holds at most 3000 entries after every
  operation of any run of appends, whatever their kinds and the framing switch. An
  append that creates an entry in a store of 3000 entries drops the oldest entry,
  and 3000 entries remain.
\<close>

theorem logStore_capacity:
  assumes "length (logs s) \<le> 3000"
  shows "(\<forall>n. length (logs (appendAll (take n ops) s)) \<le> 3000) \<and>
         (length (logs s) = 3000 \<and>
          \<not> (\<not> isAutoLineBreak s \<and> type = Rx \<and> log_type (last (logs s)) = Rx) \<longrightarrow>
            logs (addLog type data newText s) = drop 1 (logs s @ [newLog type data newText s]) \<and>
            length (logs (addLog type data newText s)) = 3000)"
proof (intro conjI allI impI)
  fix n
  show "length (logs (appendAll (take n ops) s)) \<le> 3000"
    using assms by (rule length_logs_appendAll)
next
  assume a: "length (logs s) = 3000 \<and>
    \<not> (\<not> isAutoLineBreak s \<and> type = Rx \<and> log_type (last (logs s)) = Rx)"
  then have "logs (addLog type data newText s) =
               drop (length (logs s) - 2999) (logs s @ [newLog type data newText s])"
    by (intro logs_addLog_new) blast
  with a show "logs (addLog type data newText s) = drop 1 (logs s @ [newLog type data newText s])"
    by simp
  with a show "length (logs (addLog type data newText s)) = 3000"
    by simp
qed

text \<open>
  Claim C1, at a store filled to capacity: a transmit append and a mixed run of appends.
\<close>

theorem logStore_capacity_witness:
  "length (logs fullState) = 3000 \<and>
   \<not> (\<not> isAutoLineBreak fullState \<and> Tx = Rx \<and> log_type (last (logs fullState)) = Rx) \<and>
   length (logs (addLog Tx [1] (str ''a'') fullState)) = 3000 \<and>
   length (logs (appendAll [(False, Rx, [1], str ''a''), (True, Rx, [2], str ''b''),
                            (False, Info, [], str ''c'')] fullState)) \<le> 3000"
proof -
  have len: "length (logs fullState) = 3000"
    by (simp add: fullState_def)
  have le: "length (logs fullState) \<le> 3000"
    using len by simp
  note inst = logStore_capacity [OF le,
      of "[(False, Rx, [1], str ''a''), (True, Rx, [2], str ''b''), (False, Info, [], str ''c'')]"
         Tx "[1]" "str ''a''"]
  from inst have "length (logs (appendAll (take 3 [(False, Rx, [1], str ''a''), (True, Rx, [2], str ''b''),
                            (False, Info, [], str ''c'')]) fullState)) \<le> 3000"
    by blast
  moreover from inst len have "length (logs (addLog Tx [1] (str ''a'') fullState)) = 3000"
    by simp
  ultimately show ?thesis
    using len by simp
qed

text \<open>
  Claim C9. An append either merges into the last entry, which keeps its identifier,
  kind and timestamp and is the only entry that changes, or adds one entry at the
  end and keeps the newest 3000. In both cases some number \<open>k\<close> of entries is removed
  from the front, and every earlier entry other than the last one that is not among
  them is found unchanged, \<open>k\<close> places further to the front: order is preserved.
\<close>

theorem addLog_frame:
  "logs (addLog type data newText s) =
     (if \<not> isAutoLineBreak s \<and> type = Rx \<and> logs s \<noteq> [] \<and> log_type (last (logs s)) = Rx
      then butlast (logs s) @
             [(last (logs s))\<lparr>log_data := log_data (last (logs s)) @ data,
                              log_text := log_text (last (logs s)) @ newText\<rparr>]
      else drop (length (logs s) - 2999) (logs s @ [newLog type data newText s]))
   \<and> (\<exists>k. k \<le> length (logs s) \<and>
          (length (logs (addLog type data newText s)) + k = length (logs s) \<or>
           length (logs (addLog type data newText s)) + k = length (logs s) + 1) \<and>
          (\<forall>i. k \<le> i \<and> i + 1 < length (logs s) \<longrightarrow>
                 i - k < length (logs (addLog type data newText s)) \<and>
                 logs (addLog type data newText s) ! (i - k) = logs s ! i))"
proof (rule conjI)
  show eq: "logs (addLog type data newText s) =
     (if \<not> isAutoLineBreak s \<and> type = Rx \<and> logs s \<noteq> [] \<and> log_type (last (logs s)) = Rx
      then butlast (logs s) @
             [(last (logs s))\<lparr>log_data := log_data (last (logs s)) @ data,
                              log_text := log_text (last (logs s)) @ newText\<rparr>]
      else drop (length (logs s) - 2999) (logs s @ [newLog type data newText s]))"
    by (rule logs_addLog)
  show "\<exists>k. k \<le> length (logs s) \<and>
          (length (logs (addLog type data newText s)) + k = length (logs s) \<or>
           length (logs (addLog type data newText s)) + k = length (logs s) + 1) \<and>
          (\<forall>i. k \<le> i \<and> i + 1 < length (logs s) \<longrightarrow>
                 i - k < length (logs (addLog type data newText s)) \<and>
                 logs (addLog type data newText s) ! (i - k) = logs s ! i)"
  proof (cases "\<not> isAutoLineBreak s \<and> type = Rx \<and> logs s \<noteq> [] \<and> log_type (last (logs s)) = Rx")
    case True
    then have new: "logs (addLog type data newText s) = butlast (logs s) @
             [(last (logs s))\<lparr>log_data := log_data (last (logs s)) @ data,
                              log_text := log_text (last (logs s)) @ newText\<rparr>]"
      by (intro logs_addLog_merge) simp_all
    have "\<forall>i. 0 \<le> i \<and> i + 1 < length (logs s) \<longrightarrow>
                 i - 0 < length (logs (addLog type data newText s)) \<and>
                 logs (addLog type data newText s) ! (i - 0) = logs s ! i"
      unfolding new by (auto simp: nth_append nth_butlast)
    moreover have "length (logs (addLog type data newText s)) + 0 = length (logs s)"
      unfolding new using True by simp
    ultimately show ?thesis by blast
  next
    case False
    define k where "k = length (logs s) - 2999"
    from False have new: "logs (addLog type data newText s) =
        drop k (logs s @ [newLog type data newText s])"
      unfolding k_def by (rule logs_addLog_new)
    have "\<forall>i. k \<le> i \<and> i + 1 < length (logs s) \<longrightarrow>
                 i - k < length (logs (addLog type data newText s)) \<and>
                 logs (addLog type data newText s) ! (i - k) = logs s ! i"
      unfolding new by (auto simp: nth_append simp del: drop_append)
    moreover have "length (logs (addLog type data newText s)) + k = length (logs s) + 1"
      unfolding new by (simp add: k_def)
    moreover have "k \<le> length (logs s)"
      by (simp add: k_def)
    ultimately show ?thesis by blast
  qed
qed

text \<open>
  Claim C9, at a store of two entries whose last one is a receive entry: the append
  merges, and the first entry stays as it is.
\<close>

theorem addLog_frame_witness:
  "\<not> isAutoLineBreak twoEntries \<and> logs twoEntries \<noteq> [] \<and>
   log_type (last (logs twoEntries)) = Rx \<and>
   logs (addLog Rx [3] (str ''c'') twoEntries) =
     butlast (logs twoEntries) @
       [(last (logs twoEntries))\<lparr>log_data := [1, 3], log_text := str ''ac''\<rparr>] \<and>
   logs (addLog Rx [3] (str ''c'') twoEntries) ! 0 = logs twoEntries ! 0"
proof -
  have l: "logs twoEntries =
     [newLog Tx [2] (str ''b'') connectedState,
      newLog Rx [1] (str ''a'') (addLog Tx [2] (str ''b'') connectedState)]"
    by (simp add: twoEntries_def logs_addLog connectedState_def freshState_def initialState_def
        newLog_def)
  have f: "\<not> isAutoLineBreak twoEntries"
    by (simp add: twoEntries_def connectedState_def freshState_def initialState_def)
  have t: "log_type (last (logs twoEntries)) = Rx" "log_data (last (logs twoEntries)) = [1]"
    "log_text (last (logs twoEntries)) = str ''a''"
    by (simp_all add: l newLog_def)
  from addLog_frame [of Rx "[3]" "str ''c''" twoEntries] f t l show ?thesis
    by (simp add: str_def)
qed

text \<open>
  Claim C7 fails on the code: \<open>addLog\<close> never writes \<open>byteCount\<close>. After one
  receive append of three bytes the entry has no \<open>byteCount\<close> while its data has
  length 3, and the received-bytes total shown in the status bar is \<open>NaN\<close>.
\<close>

theorem byteCount_missing:
  "map log_byteCount (logs (addLog Rx [1, 2, 3] (str ''abc'') connectedState)) = [None] \<and>
   map (\<lambda>l. length (log_data l)) (logs (addLog Rx [1, 2, 3] (str ''abc'') connectedState)) = [3] \<and>
   byteTotal Rx (logs (addLog Rx [1, 2, 3] (str ''abc'') connectedState)) = None"
  by (simp add: logs_addLog connectedState_def freshState_def initialState_def newLog_def
      byteTotal_def)

section \<open>Frequency meter and disconnect\<close>

lemma disconnect_meter:
  "newlineCountRef (disconnect s) = newlineCountRef s"
  "lineFrequency (disconnect s) = lineFrequency s"
  "lastFrequencyUpdateRef (disconnect s) = lastFrequencyUpdateRef s"
  by (simp_all add: disconnect_def Let_def setIsPaused_def newlineCountRef_addLog)

text \<open>
  Claim C8 fails on the code: \<open>disconnect\<close> does not reset the meter. In a state with
  two line feeds accumulated and 1 line per second published, both values are the
  same after the disconnect.
\<close>

theorem disconnect_keeps_meter_counterexample:
  "newlineCountRef (disconnect meterBusy) = 2 \<and> lineFrequency (disconnect meterBusy) = 1"
  by (simp add: disconnect_meter meterBusy_def newlineCountRef_addLog frequencyTimer_def
      connectedState_def freshState_def initialState_def newlineCount_def)

text \<open>
  Claim C8, amended. \<open>disconnect\<close> leaves the newline accumulator and the published
  lines per second as they are. They reach zero through the timer: after two ticks
  that are each at least a second after the last update, with no receive append in
  between, both are zero.
\<close>

theorem disconnect_keeps_meter:
  "newlineCountRef (disconnect s) = newlineCountRef s \<and>
   lineFrequency (disconnect s) = lineFrequency s \<and>
   (lastFrequencyUpdateRef s + 1000 \<le> t1 \<and> t1 + 1000 \<le> t2 \<longrightarrow>
      newlineCountRef (frequencyTimer t2 (frequencyTimer t1 (disconnect s))) = 0 \<and>
      lineFrequency (frequencyTimer t2 (frequencyTimer t1 (disconnect s))) = 0)"
  by (simp add: disconnect_meter frequencyTimer_def)

text \<open>Claim C8, amended, at the state \<open>meterBusy\<close> with ticks at 2000 and 3000.\<close>

theorem disconnect_keeps_meter_witness:
  "lastFrequencyUpdateRef meterBusy + 1000 \<le> 2000 \<and> (2000::nat) + 1000 \<le> 3000 \<and>
   newlineCountRef (disconnect meterBusy) = newlineCountRef meterBusy \<and>
   newlineCountRef (frequencyTimer 3000 (frequencyTimer 2000 (disconnect meterBusy))) = 0 \<and>
   lineFrequency (frequencyTimer 3000 (frequencyTimer 2000 (disconnect meterBusy))) = 0"
proof -
  have "lastFrequencyUpdateRef meterBusy = 1000"
    by (simp add: meterBusy_def frequencyTimer_def connectedState_def freshState_def
        initialState_def)
  with disconnect_keeps_meter [of meterBusy 2000 3000] show ?thesis
    by simp
qed

section \<open>Gating of the send paths\<close>

lemma sendData_closed: "port s = None \<or> \<not> writable (the (port s)) \<Longrightarrow> sendData encode input m s = s"
  by (simp add: sendData_def)

lemma handleFileSend_closed:
  "port s = None \<or> \<not> writable (the (port s)) \<Longrightarrow> handleFileSend user file options s = Some s"
  by (simp add: handleFileSend_def)

lemma sendData_paused:
  "port s = Some p \<Longrightarrow> writable p \<Longrightarrow> isPaused s \<Longrightarrow>
     sendData encode input m s = addLog Error [] msgSendPaused s"
  by (simp add: sendData_def)

lemma handleFileSend_paused:
  "port s = Some p \<Longrightarrow> writable p \<Longrightarrow> isPaused s \<Longrightarrow>
     handleFileSend user file options s = Some (addLog Error [] msgFilePaused s)"
  by (simp add: handleFileSend_def)

text \<open>
  Claim C6 fails on the code while disconnected: with no port, a text send and a
  file send both return at once and leave the log empty, so no error entry is
  appended.
\<close>

theorem send_while_disconnected_counterexample:
  "logs (sendData asciiEncode (str ''AT'') Text freshState) = [] \<and>
   handleFileSend noPress \<lparr>file_name = str ''f'', file_contents = [1, 2, 3]\<rparr>
      \<lparr>mode = Raw, throttleBytes = 128, throttleMs = 10\<rparr> freshState = Some freshState \<and>
   logs freshState = [] \<and> port freshState = None \<and> \<not> isConnected freshState"
  by (simp add: sendData_closed handleFileSend_closed freshState_def initialState_def)

text \<open>
  Claim C6, amended. With no port, or a port without a writable stream, both send
  paths change nothing at all: no write, no log entry. With a writable port and the
  pause engaged, both send paths do nothing but \<open>addLog\<close> an error entry: the trace
  of writes, the port, the connection flag and the pause flag are unchanged, and the
  error entry is added at the end of the log.
\<close>

theorem send_gating:
  "(port s = None \<or> \<not> writable (the (port s)) \<longrightarrow>
      sendData encode input m s = s \<and> handleFileSend user file options s = Some s) \<and>
   (port s \<noteq> None \<and> writable (the (port s)) \<and> isPaused s \<longrightarrow>
      sendData encode input m s = addLog Error [] msgSendPaused s \<and>
      handleFileSend user file options s = Some (addLog Error [] msgFilePaused s) \<and>
      (\<forall>msg. trace (addLog Error [] msg s) = trace s \<and>
             port (addLog Error [] msg s) = port s \<and>
             isConnected (addLog Error [] msg s) = isConnected s \<and>
             isPaused (addLog Error [] msg s) = isPaused s \<and>
             logs (addLog Error [] msg s) =
               drop (length (logs s) - 2999) (logs s @ [newLog Error [] msg s]) \<and>
             log_type (newLog Error [] msg s) = Error \<and>
             log_text (newLog Error [] msg s) = msg))"
  by (auto simp: sendData_closed handleFileSend_closed sendData_paused handleFileSend_paused
      logs_addLog_new newLog_def simp del: drop_append)

text \<open>Claim C6, amended, at the fresh (disconnected) state and at the paused state.\<close>

theorem send_gating_witness:
  "port pausedState \<noteq> None \<and> writable (the (port pausedState)) \<and> isPaused pausedState \<and>
   port freshState = None \<and>
   sendData asciiEncode (str ''AT'') Text freshState = freshState \<and>
   trace (sendData asciiEncode (str ''AT'') Text pausedState) = [] \<and>
   log_type (last (logs (sendData asciiEncode (str ''AT'') Text pausedState))) = Error \<and>
   length (logs (sendData asciiEncode (str ''AT'') Text pausedState)) = length (logs pausedState) + 1"
proof -
  have p: "port pausedState \<noteq> None \<and> writable (the (port pausedState)) \<and> isPaused pausedState"
    by (simp add: pausedState_def togglePause_def connectedState_def freshState_def
        initialState_def setIsPaused_def Let_def)
  have f: "port freshState = None"
    by (simp add: freshState_def initialState_def)
  have t: "trace pausedState = []" "length (logs pausedState) = 1"
    by (simp_all add: pausedState_def togglePause_def connectedState_def freshState_def
        initialState_def setIsPaused_def Let_def logs_addLog_new)
  from send_gating [of freshState asciiEncode "str ''AT''" Text] f
  have a: "sendData asciiEncode (str ''AT'') Text freshState = freshState"
    by simp
  from send_gating [of pausedState asciiEncode "str ''AT''" Text] p t
  have b: "trace (sendData asciiEncode (str ''AT'') Text pausedState) = []"
    "log_type (last (logs (sendData asciiEncode (str ''AT'') Text pausedState))) = Error"
    "length (logs (sendData asciiEncode (str ''AT'') Text pausedState)) = length (logs pausedState) + 1"
    by simp_all
  from p f a b show ?thesis by simp
qed

section \<open>Runs of receive appends\<close>

lemma drawn_addLog_new:
  "\<not> (\<not> isAutoLineBreak s \<and> type = Rx \<and> logs s \<noteq> [] \<and> log_type (last (logs s)) = Rx) \<Longrightarrow>
     drawn (addLog type data newText s) = drawn s + 1"
  using nth_last_index [of "logs s"] by (auto simp: addLog_def Let_def)

lemma readLoopAddLog_fields [simp]:
  "readLoopFraming (readLoopAddLog type data newText s) = readLoopFraming s"
  "isAutoLineBreak (readLoopAddLog type data newText s) = isAutoLineBreak s"
  "entropy (readLoopAddLog type data newText s) = entropy s"
  by (simp_all add: readLoopAddLog_def)

lemma newLog_framing [simp]:
  "newLog type data newText (s\<lparr>isAutoLineBreak := f\<rparr>) = newLog type data newText s"
  by (simp add: newLog_def)

lemma logs_readLoopAddLog_merge:
  assumes "\<not> readLoopFraming s" "logs s \<noteq> []" "log_type (last (logs s)) = Rx"
  shows "logs (readLoopAddLog Rx data newText s) =
           butlast (logs s) @
             [(last (logs s))\<lparr>log_data := log_data (last (logs s)) @ data,
                              log_text := log_text (last (logs s)) @ newText\<rparr>]"
  using assms logs_addLog_merge [of "s\<lparr>isAutoLineBreak := readLoopFraming s\<rparr>" Rx data newText]
  by (simp add: readLoopAddLog_def)

lemma logs_readLoopAddLog_new:
  assumes "readLoopFraming s \<or> logs s = [] \<or> log_type (last (logs s)) \<noteq> Rx"
  shows "logs (readLoopAddLog Rx data newText s) =
           drop (length (logs s) - 2999) (logs s @ [newLog Rx data newText s])"
  using assms logs_addLog_new [of "s\<lparr>isAutoLineBreak := readLoopFraming s\<rparr>" Rx data newText]
  by (auto simp: readLoopAddLog_def simp del: drop_append)

lemma drawn_readLoopAddLog_new:
  assumes "readLoopFraming s \<or> logs s = [] \<or> log_type (last (logs s)) \<noteq> Rx"
  shows "drawn (readLoopAddLog Rx data newText s) = drawn s + 1"
  using assms drawn_addLog_new [of "s\<lparr>isAutoLineBreak := readLoopFraming s\<rparr>" Rx data newText]
  by (auto simp: readLoopAddLog_def)

lemma rxAppends_merge:
  assumes "\<not> readLoopFraming s" "logs s \<noteq> []" "log_type (last (logs s)) = Rx"
  shows "logs (rxAppends chunks s) =
           butlast (logs s) @
             [(last (logs s))\<lparr>log_data := log_data (last (logs s)) @ concat (map fst chunks),
                              log_text := log_text (last (logs s)) @ concat (map snd chunks)\<rparr>]"
  using assms
proof (induction chunks arbitrary: s)
  case Nil
  then show ?case by simp
next
  case (Cons c chunks)
  obtain d t where c: "c = (d, t)" by (cases c) auto
  let ?s1 = "readLoopAddLog Rx d t s"
  have l1: "logs ?s1 = butlast (logs s) @
             [(last (logs s))\<lparr>log_data := log_data (last (logs s)) @ d,
                              log_text := log_text (last (logs s)) @ t\<rparr>]"
    using Cons.prems by (intro logs_readLoopAddLog_merge) simp_all
  have "logs (rxAppends chunks ?s1) =
           butlast (logs ?s1) @
             [(last (logs ?s1))\<lparr>log_data := log_data (last (logs ?s1)) @ concat (map fst chunks),
                              log_text := log_text (last (logs ?s1)) @ concat (map snd chunks)\<rparr>]"
    using Cons.prems by (intro Cons.IH) (simp_all add: l1)
  then show ?case
    by (simp add: c l1)
qed

lemma drop_cap_append:
  "drop (length (drop (length xs - n) xs @ ys) - n) (drop (length xs - n) xs @ ys)
     = drop (length (xs @ ys) - n) (xs @ ys)"
  by (cases "length xs \<le> n") (auto simp: add.commute)

lemma newLog_entropy:
  "entropy s' = entropy s \<Longrightarrow> newLog type data newText (s'\<lparr>drawn := i\<rparr>)
     = newLog type data newText (s\<lparr>drawn := i\<rparr>)"
  by (simp add: newLog_def)

lemma newLog_drawn: "newLog type data newText (s\<lparr>drawn := drawn s\<rparr>) = newLog type data newText s"
  by (simp add: newLog_def)

lemma rxAppends_framed:
  assumes "readLoopFraming s"
  shows "logs (rxAppends (c # chunks) s) =
           drop (length (logs s) + length (c # chunks) - 3000)
             (logs s @ map (\<lambda>(i, data, newText). newLog Rx data newText (s\<lparr>drawn := i\<rparr>))
                         (enumerate (drawn s) (c # chunks)))"
  using assms
proof (induction chunks arbitrary: s c)
  case Nil
  obtain d t where c: "c = (d, t)" by (cases c) auto
  have "logs (readLoopAddLog Rx d t s) = drop (length (logs s) - 2999) (logs s @ [newLog Rx d t s])"
    using Nil by (intro logs_readLoopAddLog_new) simp
  then show ?case
    by (simp add: c newLog_drawn)
next
  case (Cons c' chunks)
  obtain d t where c: "c = (d, t)" by (cases c) auto
  let ?s1 = "readLoopAddLog Rx d t s"
  let ?e = "\<lambda>s. \<lambda>(i, data, newText). newLog Rx data newText (s\<lparr>drawn := i\<rparr>)"
  have l1: "logs ?s1 = drop (length (logs s @ [newLog Rx d t s]) - 3000) (logs s @ [newLog Rx d t s])"
    using Cons.prems logs_readLoopAddLog_new [of s d t] by simp
  have d1: "drawn ?s1 = Suc (drawn s)"
    using Cons.prems drawn_readLoopAddLog_new [of s d t] by simp
  have f1: "readLoopFraming ?s1"
    using Cons.prems by simp
  have e1: "?e ?s1 = ?e s"
    by (intro ext) (auto simp: newLog_entropy [of ?s1 s])
  have "logs (rxAppends (c # c' # chunks) s) = logs (rxAppends (c' # chunks) ?s1)"
    by (simp add: c)
  also have "\<dots> = drop (length (logs ?s1) + length (c' # chunks) - 3000)
             (logs ?s1 @ map (?e ?s1) (enumerate (drawn ?s1) (c' # chunks)))"
    using f1 by (rule Cons.IH)
  also have "\<dots> = drop (length (logs ?s1 @ map (?e s) (enumerate (Suc (drawn s)) (c' # chunks))) - 3000)
             (logs ?s1 @ map (?e s) (enumerate (Suc (drawn s)) (c' # chunks)))"
    by (simp only: e1 d1 length_append length_map length_enumerate)
  also have "\<dots> = drop (length ((logs s @ [newLog Rx d t s])
                         @ map (?e s) (enumerate (Suc (drawn s)) (c' # chunks))) - 3000)
             ((logs s @ [newLog Rx d t s]) @ map (?e s) (enumerate (Suc (drawn s)) (c' # chunks)))"
    unfolding l1 by (rule drop_cap_append)
  also have "\<dots> = drop (length (logs s) + length (c # c' # chunks) - 3000)
             (logs s @ map (?e s) (enumerate (drawn s) (c # c' # chunks)))"
    by (simp add: c newLog_drawn)
  finally show ?case .
qed

lemma rxAppends_fresh:
  assumes "\<not> readLoopFraming s" "logs s = [] \<or> log_type (last (logs s)) \<noteq> Rx"
  shows "logs (rxAppends (c # chunks) s) =
           drop (length (logs s) - 2999)
             (logs s @ [newLog Rx (concat (map fst (c # chunks))) (concat (map snd (c # chunks))) s])"
proof -
  obtain d t where c: "c = (d, t)" by (cases c) auto
  let ?s1 = "readLoopAddLog Rx d t s"
  let ?k = "length (logs s) - 2999"
  have l1: "logs ?s1 = drop ?k (logs s) @ [newLog Rx d t s]"
    using assms logs_readLoopAddLog_new [of s d t] by auto
  have "logs (rxAppends chunks ?s1) =
           butlast (logs ?s1) @
             [(last (logs ?s1))\<lparr>log_data := log_data (last (logs ?s1)) @ concat (map fst chunks),
                              log_text := log_text (last (logs ?s1)) @ concat (map snd chunks)\<rparr>]"
    using assms(1) by (intro rxAppends_merge) (simp_all add: l1 newLog_def)
  then show ?thesis
    by (simp add: c l1 newLog_def)
qed


text \<open>
  A framing switch made while connected is not seen by the read loop. After a
  connect with framing off and a switch to on, two received chunks still merge into
  one entry; after a connect with framing on and a switch to off, they still make
  two entries (behind the entry of the connect).
\<close>

lemma receive_after_framing_switch:
  "isAutoLineBreak framedState \<and> \<not> readLoopFraming framedState \<and>
   map log_data (logs (rxAppends [([3], str ''c''), ([4, 5], str ''de'')] framedState))
     = [[3, 4, 5]] \<and>
   \<not> isAutoLineBreak (connectedFramed\<lparr>isAutoLineBreak := False\<rparr>) \<and>
   readLoopFraming (connectedFramed\<lparr>isAutoLineBreak := False\<rparr>) \<and>
   map log_data (logs (rxAppends [([3], str ''c''), ([4, 5], str ''de'')]
                         (connectedFramed\<lparr>isAutoLineBreak := False\<rparr>)))
     = [[], [3], [4, 5]]"
proof -
  let ?cs = "[([3], str ''c''), ([4, 5], str ''de'')] :: (bytes \<times> jsstring) list"
  have f: "isAutoLineBreak framedState" "\<not> readLoopFraming framedState" "logs framedState = []"
    by (simp_all add: framedState_def connectedState_def freshState_def initialState_def)
  have 1: "map log_data (logs (rxAppends ?cs framedState)) = [[3, 4, 5]]"
    using rxAppends_fresh [of framedState "([3], str ''c'')" "[([4, 5], str ''de'')]"] f
    by (simp add: newLog_def)
  let ?s = "connectedFramed\<lparr>isAutoLineBreak := False\<rparr>"
  have c: "readLoopFraming ?s" "map log_data (logs ?s) = [[]]" "length (logs ?s) = 1"
    by (simp_all add: connectedFramed_def connect_def readLoop_start_def Let_def logs_addLog
        freshState_def initialState_def newLog_def)
  have 2: "map log_data (logs (rxAppends ?cs ?s)) = [[], [3], [4, 5]]"
    using rxAppends_framed [of ?s "([3], str ''c'')" "[([4, 5], str ''de'')]"] c
    by (simp add: newLog_def enumerate_eq_zip)
  from f c 1 2 show ?thesis by simp
qed

text \<open>
  Claim C2 fails on the code as stated: when the last entry of the store is a receive
  entry that holds the byte 1, one receive append of the byte 3 with framing off
  adds no entry, and the last entry holds the two bytes 1 and 3, not the one
  appended byte.
\<close>

theorem receive_merge_counterexample:
  "\<not> isAutoLineBreak twoEntries \<and> \<not> readLoopFraming twoEntries \<and>
   log_type (last (logs twoEntries)) = Rx \<and>
   log_data (last (logs (rxAppends [([3], str ''c'')] twoEntries))) = [1, 3] \<and>
   length (log_data (last (logs (rxAppends [([3], str ''c'')] twoEntries)))) \<noteq> length [3 :: byte] \<and>
   length (logs (rxAppends [([3], str ''c'')] twoEntries)) = length (logs twoEntries)"
proof -
  have l: "logs twoEntries =
     [newLog Tx [2] (str ''b'') connectedState,
      newLog Rx [1] (str ''a'') (addLog Tx [2] (str ''b'') connectedState)]"
    by (simp add: twoEntries_def logs_addLog connectedState_def freshState_def initialState_def
        newLog_def)
  have f: "\<not> isAutoLineBreak twoEntries" "\<not> readLoopFraming twoEntries"
    by (simp_all add: twoEntries_def connectedState_def freshState_def initialState_def)
  have "logs (rxAppends [([3], str ''c'')] twoEntries) =
     butlast (logs twoEntries) @
             [(last (logs twoEntries))\<lparr>log_data := log_data (last (logs twoEntries)) @ [3],
                              log_text := log_text (last (logs twoEntries)) @ str ''c''\<rparr>]"
    using f by (simp add: logs_readLoopAddLog_merge l newLog_def)
  then show ?thesis
    using f by (simp add: l newLog_def)
qed

text \<open>
  Claim C2, amended. Take one or more consecutive receive appends while the framing
  switch has the value it had when the connection was opened. With framing off
  and a store whose last entry is a receive entry, they add no entry: only the last
  entry changes, its bytes and text being followed by the concatenation of the
  appended chunks and fragments. With framing off and a store that is empty or ends
  in another kind of entry, they add exactly one entry, which holds exactly the
  concatenations. With framing on they add one entry per chunk, in order. In the
  last two cases the store then keeps its newest 3000 entries.
\<close>

theorem consecutive_receive_appends:
  assumes "chunks \<noteq> []" and "readLoopFraming s = isAutoLineBreak s"
  shows
   "(\<not> isAutoLineBreak s \<and> logs s \<noteq> [] \<and> log_type (last (logs s)) = Rx \<longrightarrow>
       logs (rxAppends chunks s) =
         butlast (logs s) @
           [(last (logs s))\<lparr>log_data := log_data (last (logs s)) @ concat (map fst chunks),
                            log_text := log_text (last (logs s)) @ concat (map snd chunks)\<rparr>] \<and>
       length (logs (rxAppends chunks s)) = length (logs s) \<and>
       length (log_data (last (logs (rxAppends chunks s)))) =
         length (log_data (last (logs s))) + sum_list (map (\<lambda>c. length (fst c)) chunks)) \<and>
    (\<not> isAutoLineBreak s \<and> (logs s = [] \<or> log_type (last (logs s)) \<noteq> Rx) \<longrightarrow>
       logs (rxAppends chunks s) =
         drop (length (logs s) - 2999)
           (logs s @ [newLog Rx (concat (map fst chunks)) (concat (map snd chunks)) s]) \<and>
       length (concat (map fst chunks)) = sum_list (map (\<lambda>c. length (fst c)) chunks)) \<and>
    (isAutoLineBreak s \<longrightarrow>
       logs (rxAppends chunks s) =
         drop (length (logs s) + length chunks - 3000)
           (logs s @ map (\<lambda>(i, data, newText). newLog Rx data newText (s\<lparr>drawn := i\<rparr>))
                       (enumerate (drawn s) chunks)))"
proof -
  obtain c cs where chunks: "chunks = c # cs"
    using assms(1) by (cases chunks) auto
  have len: "length (concat (map fst chunks)) = sum_list (map (\<lambda>c. length (fst c)) chunks)"
    by (simp add: length_concat comp_def)
  show ?thesis
  proof (intro conjI impI)
    assume a: "\<not> isAutoLineBreak s \<and> logs s \<noteq> [] \<and> log_type (last (logs s)) = Rx"
    then show m: "logs (rxAppends chunks s) =
         butlast (logs s) @
           [(last (logs s))\<lparr>log_data := log_data (last (logs s)) @ concat (map fst chunks),
                            log_text := log_text (last (logs s)) @ concat (map snd chunks)\<rparr>]"
      using assms(2) by (intro rxAppends_merge) simp_all
    from a show "length (logs (rxAppends chunks s)) = length (logs s)"
      by (simp add: m)
    show "length (log_data (last (logs (rxAppends chunks s)))) =
         length (log_data (last (logs s))) + sum_list (map (\<lambda>c. length (fst c)) chunks)"
      using len by (simp add: m)
  next
    assume "\<not> isAutoLineBreak s \<and> (logs s = [] \<or> log_type (last (logs s)) \<noteq> Rx)"
    then show "logs (rxAppends chunks s) =
         drop (length (logs s) - 2999)
           (logs s @ [newLog Rx (concat (map fst chunks)) (concat (map snd chunks)) s])"
      unfolding chunks using assms(2) by (intro rxAppends_fresh) simp_all
  next
    show "length (concat (map fst chunks)) = sum_list (map (\<lambda>c. length (fst c)) chunks)"
      by (rule len)
  next
    assume "isAutoLineBreak s"
    then show "logs (rxAppends chunks s) =
         drop (length (logs s) + length chunks - 3000)
           (logs s @ map (\<lambda>(i, data, newText). newLog Rx data newText (s\<lparr>drawn := i\<rparr>))
                       (enumerate (drawn s) chunks))"
      unfolding chunks using assms(2) by (intro rxAppends_framed) simp
  qed
qed

text \<open>
  Claim C2, amended, for two chunks appended to a store ending in a receive entry, to
  an empty store with framing off, and to the store of a connection that was opened
  with framing on.
\<close>

theorem consecutive_receive_appends_witness:
  "readLoopFraming twoEntries = isAutoLineBreak twoEntries \<and>
   \<not> isAutoLineBreak twoEntries \<and> logs twoEntries \<noteq> [] \<and> log_type (last (logs twoEntries)) = Rx \<and>
   length (logs (rxAppends [([3], str ''c''), ([4, 5], str ''de'')] twoEntries)) = 2 \<and>
   log_data (last (logs (rxAppends [([3], str ''c''), ([4, 5], str ''de'')] twoEntries))) = [1, 3, 4, 5] \<and>
   readLoopFraming connectedState = isAutoLineBreak connectedState \<and>
   \<not> isAutoLineBreak connectedState \<and> logs connectedState = [] \<and>
   map log_data (logs (rxAppends [([3], str ''c''), ([4, 5], str ''de'')] connectedState)) = [[3, 4, 5]] \<and>
   readLoopFraming connectedFramed = isAutoLineBreak connectedFramed \<and>
   isAutoLineBreak connectedFramed \<and>
   map log_data (logs (rxAppends [([3], str ''c''), ([4, 5], str ''de'')] connectedFramed))
     = [[], [3], [4, 5]]"
proof -
  let ?cs = "[([3], str ''c''), ([4, 5], str ''de'')] :: (bytes \<times> jsstring) list"
  have ne: "?cs \<noteq> []" by simp
  have l: "logs twoEntries =
     [newLog Tx [2] (str ''b'') connectedState,
      newLog Rx [1] (str ''a'') (addLog Tx [2] (str ''b'') connectedState)]"
    by (simp add: twoEntries_def logs_addLog connectedState_def freshState_def initialState_def
        newLog_def)
  have f: "\<not> isAutoLineBreak twoEntries" "readLoopFraming twoEntries = isAutoLineBreak twoEntries"
    by (simp_all add: twoEntries_def connectedState_def freshState_def initialState_def)
  have t: "logs twoEntries \<noteq> []" "log_type (last (logs twoEntries)) = Rx"
    "log_data (last (logs twoEntries)) = [1]"
    by (simp_all add: l newLog_def)
  have c: "\<not> isAutoLineBreak connectedState" "logs connectedState = []"
    "readLoopFraming connectedState = isAutoLineBreak connectedState"
    by (simp_all add: connectedState_def freshState_def initialState_def)
  have fr: "isAutoLineBreak connectedFramed"
    "readLoopFraming connectedFramed = isAutoLineBreak connectedFramed"
    "map log_data (logs connectedFramed) = [[]]" "length (logs connectedFramed) = 1"
    by (simp_all add: connectedFramed_def connect_def readLoop_start_def Let_def logs_addLog
        freshState_def initialState_def newLog_def)
  from consecutive_receive_appends [OF ne f(2)] f t
  have 1: "length (logs (rxAppends ?cs twoEntries)) = 2"
    "log_data (last (logs (rxAppends ?cs twoEntries))) = [1, 3, 4, 5]"
    by (simp_all add: l)
  from consecutive_receive_appends [OF ne c(3)] c
  have 2: "map log_data (logs (rxAppends ?cs connectedState)) = [[3, 4, 5]]"
    by (simp add: newLog_def)
  from consecutive_receive_appends [OF ne fr(2)] fr
  have 3: "map log_data (logs (rxAppends ?cs connectedFramed)) = [[], [3], [4, 5]]"
    by (simp add: newLog_def enumerate_eq_zip)
  from f t c fr 1 2 3 show ?thesis by simp
qed

section \<open>Hex rendering and parsing\<close>

lemma upperDigit_all:
  "\<forall>d \<in> set [0..<16]. isHexDigit (upperDigit d) \<and> hexValue (upperDigit d) = d"
  by code_simp

lemma upperDigit_hex: "d < 16 \<Longrightarrow> isHexDigit (upperDigit d)"
  and upperDigit_value: "d < 16 \<Longrightarrow> hexValue (upperDigit d) = d"
  using upperDigit_all by auto

lemma space_not_hex: "\<not> isHexDigit 32"
  by (simp add: isHexDigit_def)

lemma hexPair_eq: "hexPair b = [upperDigit (unat b div 16), upperDigit (unat b mod 16)]"
proof -
  have lt: "unat b < 256"
    using unsigned_less [of b, where ?'a = nat] by simp
  have z: "digitChar 0 = 48" by (simp add: digitChar_def)
  show ?thesis
  proof (cases "unat b < 16")
    case True
    then have "numToString 16 (unat b) = [digitChar (unat b)]"
      by (simp add: numToString.simps)
    with True show ?thesis
      by (simp add: hexPair_def padStart_def toUpperCase_def upperDigit_def z)
  next
    case False
    have d: "unat b div 16 < 16" using lt by simp
    then have "numToString 16 (unat b div 16) = [digitChar (unat b div 16)]"
      by (simp add: numToString.simps)
    with False have "numToString 16 (unat b) = [digitChar (unat b div 16), digitChar (unat b mod 16)]"
      by (simp add: numToString.simps [of 16 "unat b"])
    then show ?thesis
      by (simp add: hexPair_def padStart_def toUpperCase_def upperDigit_def)
  qed
qed

lemma length_hexPair [simp]: "length (hexPair b) = 2"
  by (simp add: hexPair_eq)

lemma filter_hexPair: "filter isHexDigit (hexPair b) = hexPair b"
proof -
  have "unat b < 256"
    using unsigned_less [of b, where ?'a = nat] by simp
  then have "unat b mod 16 < 16" "unat b div 16 < 16"
    by simp_all
  then show ?thesis
    by (simp add: hexPair_eq upperDigit_hex)
qed

lemma parse_hexPair: "toUint8 (parseInt16 (hexPair b)) = b"
proof -
  have "unat b < 256"
    using unsigned_less [of b, where ?'a = nat] by simp
  then have lt: "unat b mod 16 < 16" "unat b div 16 < 16"
    by simp_all
  have "parseInt16 (hexPair b) = Some (16 * (unat b div 16) + unat b mod 16)"
    using lt by (simp add: parseInt16_def hexPair_eq upperDigit_hex upperDigit_value)
  then show ?thesis
    by (simp add: toUint8_def)
qed

lemma filter_join_hexPair:
  "filter isHexDigit (join (str '' '') (map hexPair arr)) = concat (map hexPair arr)"
proof (induction arr rule: induct_list012)
  case 1
  then show ?case by simp
next
  case (2 b)
  then show ?case by (simp add: filter_hexPair)
next
  case (3 b c arr)
  then show ?case by (simp add: filter_hexPair str_def space_not_hex)
qed

lemma substring_pairs:
  "j < length arr \<Longrightarrow>
     substring (concat (map hexPair arr)) (2 * j) (2 * j + 2) = hexPair (arr ! j)"
proof (induction arr arbitrary: j)
  case Nil
  then show ?case by simp
next
  case (Cons b arr)
  have len: "length (concat (map hexPair arr)) = 2 * length arr"
    by (simp add: length_concat comp_def sum_list_triv)
  show ?case
  proof (cases j)
    case 0
    then show ?thesis by (simp add: substring_def len)
  next
    case (Suc i)
    with Cons.prems have i: "i < length arr" by simp
    from Cons.IH [OF i] i show ?thesis
      by (simp add: substring_def len Suc min_def max_def)
  qed
qed

lemma hexLoop_map:
  assumes "length cleanHex = 2 * n" "length result = n" "k \<le> n"
  shows "hexLoop cleanHex (2 * k) result =
           take k result @
             map (\<lambda>j. toUint8 (parseInt16 (substring cleanHex (2 * j) (2 * j + 2)))) [k..<n]"
  using assms
proof (induction "n - k" arbitrary: k result)
  case 0
  then show ?case by (simp add: hexLoop.simps [of _ "2 * k"])
next
  case (Suc m)
  then have k: "k < n" by simp
  let ?v = "toUint8 (parseInt16 (substring cleanHex (2 * k) (2 * k + 2)))"
  have "hexLoop cleanHex (2 * k) result = hexLoop cleanHex (2 * Suc k) (result[k := ?v])"
    using k Suc.prems by (simp add: hexLoop.simps [of _ "2 * k"])
  also have "\<dots> = take (Suc k) (result[k := ?v]) @
             map (\<lambda>j. toUint8 (parseInt16 (substring cleanHex (2 * j) (2 * j + 2)))) [Suc k..<n]"
    using Suc.hyps(2) Suc.prems k by (intro Suc.hyps(1)) simp_all
  also have "take (Suc k) (result[k := ?v]) = take k result @ [?v]"
    using k Suc.prems by (simp add: take_Suc_conv_app_nth)
  finally show ?case
    using k by (simp add: upt_conv_Cons)
qed

text \<open>
  Claim C10. Rendering a byte sequence as hex and parsing the rendered string gives
  the byte sequence back; so the rendered string of any sequence, empty or not,
  parses without an error.
\<close>

theorem hex_round_trip: "hexToUint8Array (uint8ArrayToHex a) = Inr a"
proof -
  let ?cs = "concat (map hexPair a)"
  have clean: "filter isHexDigit (uint8ArrayToHex a) = ?cs"
    using filter_join_hexPair [of a] by (simp add: uint8ArrayToHex_def)
  have len: "length ?cs = 2 * length a"
    by (simp add: length_concat comp_def sum_list_triv)
  have "hexLoop ?cs (2 * 0) (replicate (length a) 0) =
          take 0 (replicate (length a) 0) @
            map (\<lambda>j. toUint8 (parseInt16 (substring ?cs (2 * j) (2 * j + 2)))) [0..<length a]"
    using len by (intro hexLoop_map) simp_all
  also have "\<dots> = map (\<lambda>j. a ! j) [0..<length a]"
    by (simp add: substring_pairs parse_hexPair del: add_2_eq_Suc add_2_eq_Suc')
  also have "\<dots> = a"
    by (rule map_nth)
  finally have "hexLoop ?cs 0 (replicate (length a) 0) = a"
    by simp
  then show ?thesis
    by (simp add: hexToUint8Array_def clean len)
qed

section \<open>Sending in hex mode\<close>

lemma hexToUint8Array_fails:
  "isl (hexToUint8Array input) \<longleftrightarrow> odd (length (filter isHexDigit input))"
  by (simp add: hexToUint8Array_def Let_def odd_iff_mod_2_eq_one)

lemma hexToUint8Array_error:
  "odd (length (filter isHexDigit input)) \<Longrightarrow> hexToUint8Array input = Inl msgInvalidHex"
  by (simp add: hexToUint8Array_def Let_def odd_iff_mod_2_eq_one)

lemma FF_1: "filter isHexDigit (str ''FF 1'') = str ''FF1''"
  by (simp add: str_def isHexDigit_def)

lemma FFZZ: "hexToUint8Array (str ''FFZZ'') = Inr [255]"
  by code_simp

text \<open>
  Claim C4 fails on the code for inputs with characters that are neither hex digits
  nor separators: every character outside \<open>[0-9A-Fa-f]\<close> is stripped, so the
  input \<open>FFZZ\<close>, which contains the non-hex character \<open>Z\<close>, parses to the one
  byte 255, and that byte is written to the port.
\<close>

theorem hex_non_hex_counterexample:
  "\<not> isHexDigit (of_nat (of_char CHR ''Z'')) \<and>
   hexToUint8Array (str ''FFZZ'') = Inr [255] \<and>
   writesOf (trace (sendData asciiEncode (str ''FFZZ'') Hex connectedState)) = [[255]]"
proof -
  have "\<not> isHexDigit (of_nat (of_char CHR ''Z''))"
    by (simp add: isHexDigit_def)
  moreover have "writesOf (trace (sendData asciiEncode (str ''FFZZ'') Hex connectedState)) = [[255]]"
    by (simp add: sendData_def FFZZ writer_write_def connectedState_def freshState_def
        initialState_def neverFails_def writesOf_def)
  ultimately show ?thesis
    using FFZZ by simp
qed

text \<open>
  Claim C4, amended. The hex parser fails exactly when the number of hex digits in
  the input is odd, all other characters being ignored, and the error is the one
  with the invalid-hex message. When a hex send on a writable, unpaused port fails
  so, nothing is written: the send only adds an error entry to the log and leaves
  the port, the connection flag and the pause flag as they are. The input
  \<open>FF 1\<close> fails.
\<close>

theorem hex_send_failure:
  "(isl (hexToUint8Array input) \<longleftrightarrow> odd (length (filter isHexDigit input))) \<and>
   (isl (hexToUint8Array input) \<longrightarrow> hexToUint8Array input = Inl msgInvalidHex) \<and>
   (port s \<noteq> None \<and> writable (the (port s)) \<and> \<not> isPaused s \<and> isl (hexToUint8Array input) \<longrightarrow>
      sendData encode input Hex s = addLog Error [] (msgSendFailed @ msgInvalidHex) s \<and>
      trace (sendData encode input Hex s) = trace s \<and>
      port (sendData encode input Hex s) = port s \<and>
      isConnected (sendData encode input Hex s) = isConnected s \<and>
      isPaused (sendData encode input Hex s) = isPaused s \<and>
      logs (sendData encode input Hex s) =
        drop (length (logs s) - 2999)
          (logs s @ [newLog Error [] (msgSendFailed @ msgInvalidHex) s])) \<and>
   isl (hexToUint8Array (str ''FF 1''))"
proof (intro conjI impI)
  show "isl (hexToUint8Array input) \<longleftrightarrow> odd (length (filter isHexDigit input))"
    by (rule hexToUint8Array_fails)
  show "isl (hexToUint8Array (str ''FF 1''))"
    unfolding hexToUint8Array_fails FF_1 by (simp add: str_def)
next
  assume "isl (hexToUint8Array input)"
  then show "hexToUint8Array input = Inl msgInvalidHex"
    by (simp add: hexToUint8Array_fails hexToUint8Array_error)
next
  assume a: "port s \<noteq> None \<and> writable (the (port s)) \<and> \<not> isPaused s \<and> isl (hexToUint8Array input)"
  then have e: "hexToUint8Array input = Inl msgInvalidHex"
    by (simp add: hexToUint8Array_fails hexToUint8Array_error)
  with a show r: "sendData encode input Hex s = addLog Error [] (msgSendFailed @ msgInvalidHex) s"
    by (auto simp: sendData_def)
  show "trace (sendData encode input Hex s) = trace s"
    "port (sendData encode input Hex s) = port s"
    "isConnected (sendData encode input Hex s) = isConnected s"
    "isPaused (sendData encode input Hex s) = isPaused s"
    by (simp_all add: r)
  show "logs (sendData encode input Hex s) =
        drop (length (logs s) - 2999)
          (logs s @ [newLog Error [] (msgSendFailed @ msgInvalidHex) s])"
    unfolding r by (intro logs_addLog_new) simp
qed

text \<open>Claim C4, amended, for the input \<open>FF 1\<close> sent on a connected port.\<close>

theorem hex_send_failure_witness:
  "port connectedState \<noteq> None \<and> writable (the (port connectedState)) \<and>
   \<not> isPaused connectedState \<and>
   hexToUint8Array (str ''FF 1'') = Inl msgInvalidHex \<and>
   trace (sendData asciiEncode (str ''FF 1'') Hex connectedState) = [] \<and>
   map log_type (logs (sendData asciiEncode (str ''FF 1'') Hex connectedState)) = [Error]"
proof -
  have c: "port connectedState \<noteq> None" "writable (the (port connectedState))"
    "\<not> isPaused connectedState" "trace connectedState = []" "logs connectedState = []"
    by (simp_all add: connectedState_def freshState_def initialState_def)
  note inst = hex_send_failure [of "str ''FF 1''" connectedState asciiEncode]
  from inst have "hexToUint8Array (str ''FF 1'') = Inl msgInvalidHex"
    by blast
  moreover from inst c have "trace (sendData asciiEncode (str ''FF 1'') Hex connectedState) = []"
    by auto
  moreover from inst c
  have "map log_type (logs (sendData asciiEncode (str ''FF 1'') Hex connectedState)) = [Error]"
    by (auto simp: newLog_def)
  ultimately show ?thesis
    using c by simp
qed

section \<open>File send\<close>

lemma bitLength_bounds:
  "0 < n \<Longrightarrow> 2 ^ (bitLength n - 1) \<le> n \<and> n < 2 ^ bitLength n"
proof (induction n rule: bitLength.induct)
  case (1 n)
  show ?case
  proof (cases "n = 1")
    case True
    then show ?thesis
      by (simp add: bitLength.simps [of 1] bitLength.simps [of 0])
  next
    case False
    with "1.prems" have h: "0 < n div 2" by simp
    have bl: "bitLength n = Suc (bitLength (n div 2))"
      using "1.prems" by (simp add: bitLength.simps [of n])
    from "1.IH" h "1.prems"
    have ih: "2 ^ (bitLength (n div 2) - 1) \<le> n div 2" "n div 2 < 2 ^ bitLength (n div 2)"
      by simp_all
    have pos: "0 < bitLength (n div 2)"
      using h by (simp add: bitLength.simps [of "n div 2"])
    then have "(2::int) ^ bitLength (n div 2) = 2 * 2 ^ (bitLength (n div 2) - 1)"
      by (cases "bitLength (n div 2)") simp_all
    with ih show ?thesis
      by (simp add: bl) linarith
  qed
qed

lemma bitLength_one: "bitLength 1 = 1"
  by (simp add: bitLength.simps [of 1] bitLength.simps [of 0])

lemma bitLength_le: "0 < n \<Longrightarrow> n < 2 ^ k \<Longrightarrow> bitLength n \<le> k"
proof (rule ccontr)
  assume n: "0 < n" "n < 2 ^ k" and "\<not> bitLength n \<le> k"
  then have "k \<le> bitLength n - 1" by simp
  then have "(2::int) ^ k \<le> 2 ^ (bitLength n - 1)"
    by (intro power_increasing) simp_all
  moreover have "2 ^ (bitLength n - 1) \<le> n"
    using bitLength_bounds [OF n(1)] by simp
  ultimately show False
    using n(2) by linarith
qed

lemma pow2_neg: "0 \<le> k \<Longrightarrow> of_int (n * 2 ^ nat k) * pow2 (- k) = of_int n"
  by (cases "k = 0") (simp_all add: pow2_def)

lemma pow2_neg': "0 \<le> k \<Longrightarrow> 2 ^ nat k * pow2 (- k) = 1"
  by (cases "k = 0") (simp_all add: pow2_def)

lemma roundDouble_int:
  assumes "0 < n" "n < 2 ^ 53"
  shows "doubleValue (roundDouble n 1) = of_int n"
proof -
  have b: "0 < bitLength n" "bitLength n \<le> 53"
    using assms bitLength_le [of n 53] by (simp_all add: bitLength.simps [of n])
  have lo: "2 ^ (bitLength n - 1) \<le> n"
    using bitLength_bounds [OF assms(1)] by simp
  have d: "nat (int (bitLength n) - 1) = bitLength n - 1"
    using b by simp
  have fl: "floorLog2 n 1 = int (bitLength n) - 1"
    using b lo by (simp add: floorLog2_def bitLength_one Let_def d)
  define k where "k = 52 - floorLog2 n 1"
  have k: "0 \<le> k" using b by (simp add: k_def fl)
  have "roundDouble n 1 = (n * 2 ^ nat k, - k)"
    using assms(1) k by (simp add: roundDouble_def Let_def k_def [symmetric])
  then show ?thesis
    using k by (simp add: doubleValue_def pow2_neg')
qed

lemma toDouble_int: "0 \<le> n \<Longrightarrow> n < 2 ^ 53 \<Longrightarrow> toDouble (of_int n) = of_int n"
  using roundDouble_int [of n] by (cases "n = 0") (simp_all add: toDouble_def)

lemma toInteger_toDouble_numeral [simp]:
  "(numeral k :: int) < 2 ^ 53 \<Longrightarrow> toInteger (toDouble (numeral k)) = numeral k"
  using toDouble_int [of "numeral k"] by (simp add: toInteger_def)

lemma toInteger_toDouble_one [simp]: "toInteger (toDouble 1) = 1"
  using toDouble_int [of 1] by (simp add: toInteger_def)

lemma chunk_end:
  assumes "tb \<in> \<int>" "1 \<le> tb" "of_nat sent + tb < 2 ^ 53"
  shows "toInteger (toDouble (of_nat sent + tb)) = int sent + \<lfloor>tb\<rfloor>"
proof -
  from assms(1) obtain z where z: "tb = of_int z"
    by (auto elim: Ints_cases)
  have "of_nat sent + tb = (of_int (int sent + z) :: rat)"
    by (simp add: z)
  moreover have "0 \<le> int sent + z" "int sent + z < 2 ^ 53"
    using assms(2,3) z by (simp_all flip: of_int_less_iff [where ?'a = rat])
  ultimately have "toDouble (of_nat sent + tb) = of_int (int sent + z)"
    using toDouble_int [of "int sent + z"] by simp
  then show ?thesis
    by (simp add: toInteger_def z)
qed

lemma slice_js_chunk:
  "0 < tb \<Longrightarrow> slice_js data (int sent) (int sent + tb) = take (nat tb) (drop sent data)"
  by (cases "sent \<le> length data") (auto simp: slice_js_def Let_def min_def nat_diff_distrib' nat_add_distrib)

lemma togglePause_frame [simp]:
  "trace (togglePause s) = trace s"
  "writeError (togglePause s) = writeError s"
  by (simp_all add: togglePause_def setIsPaused_def Let_def)

lemma less_chunkCount:
  assumes "1 \<le> throttleBytes options"
  shows "j < chunkCount data options \<longleftrightarrow> j * nat \<lfloor>throttleBytes options\<rfloor> < length data"
proof -
  define b where "b = nat \<lfloor>throttleBytes options\<rfloor>"
  have b: "0 < b" using assms by (simp add: b_def)
  have "j < chunkCount data options \<longleftrightarrow> Suc j \<le> (length data + b - 1) div b"
    by (simp add: chunkCount_def Suc_le_eq b_def)
  also have "\<dots> \<longleftrightarrow> Suc j * b \<le> length data + b - 1"
    using b by (simp only: less_eq_div_iff_mult_less_eq)
  also have "\<dots> \<longleftrightarrow> j * b < length data"
    using b by auto
  finally show ?thesis
    by (simp add: b_def)
qed

lemma sendLoop_run:
  assumes "1 \<le> throttleBytes options" "\<forall>k. writeError s k = None"
    and "throttleBytes options \<in> \<int>"
    and "of_nat (length data) + throttleBytes options < 2 ^ 53"
    and "j \<le> chunkCount data options"
    and "sent = min (j * nat \<lfloor>throttleBytes options\<rfloor>) (length data)"
  shows "\<exists>s'. sendLoop user False data options j sent s = Some (None, s') \<and>
              trace s' = trace s @ concat (map (chunkEffects data options) [j..<chunkCount data options])"
  using assms
proof (induction "chunkCount data options - j" arbitrary: j sent s)
  case 0
  then have "j = chunkCount data options" by simp
  then have "\<not> j * nat \<lfloor>throttleBytes options\<rfloor> < length data"
    using less_chunkCount [OF "0.prems"(1), of j data] by simp
  then have "\<not> sent < length data"
    using "0.prems"(6) by simp
  then show ?case
    using \<open>j = chunkCount data options\<close> by (subst sendLoop.simps) simp
next
  case (Suc m)
  let ?b = "nat \<lfloor>throttleBytes options\<rfloor>"
  let ?N = "chunkCount data options"
  from Suc.hyps(2) have jN: "j < ?N" by simp
  then have lt: "j * ?b < length data"
    using less_chunkCount [OF Suc.prems(1), of j data] by simp
  then have sent: "sent = j * ?b"
    using Suc.prems(6) by simp
  let ?chunk = "take ?b (drop sent data)"
  have lt': "sent < length data"
    using lt sent by simp
  then have "(of_nat sent :: rat) < of_nat (length data)"
    by simp
  then have "of_nat sent + throttleBytes options < 2 ^ 53"
    using Suc.prems(4) by linarith
  then have "toInteger (toDouble (of_nat sent + throttleBytes options))
               = int sent + \<lfloor>throttleBytes options\<rfloor>"
    using Suc.prems(1,3) by (intro chunk_end)
  moreover have "0 < \<lfloor>throttleBytes options\<rfloor>"
    using Suc.prems(1) by simp
  ultimately have ch: "slice_js data (int sent)
      (toInteger (toDouble (of_nat sent + throttleBytes options))) = ?chunk"
    by (simp add: slice_js_chunk)
  have len: "sent + length ?chunk = min (Suc j * ?b) (length data)"
    using lt by (auto simp: sent min_def)
  let ?s1 = "s\<lparr>trace := trace s @ [Write ?chunk]\<rparr>"
  let ?s2 = "if user j then togglePause ?s1 else ?s1"
  let ?sent' = "min (Suc j * ?b) (length data)"
  let ?s3 = "?s2\<lparr>trace := trace ?s2 @ [Progress (percent ?sent' (length data))]\<rparr>"
  let ?s4 = "if throttleMs options > 0 \<and> ?sent' < length data
             then ?s3\<lparr>trace := trace ?s3 @ [Delay (throttleMs options)]\<rparr> else ?s3"
  define s4 where "s4 = ?s4"
  have w: "writer_write ?chunk s = Inr ?s1"
    using Suc.prems(2) by (simp add: writer_write_def)
  have unfold: "sendLoop user False data options j sent s
                  = sendLoop user False data options (Suc j) ?sent' s4"
    unfolding s4_def
    by (subst sendLoop.simps)
      (simp only: lt' if_True if_False ch w Let_def sum.case len Suc_eq_plus1)
  have we4: "\<forall>k. writeError s4 k = None"
    using Suc.prems(2) by (simp add: s4_def)
  have tr4: "trace s4 = trace s @ chunkEffects data options j"
    by (simp add: s4_def chunkEffects_def Let_def sent)
  have "\<exists>s'. sendLoop user False data options (Suc j) ?sent' s4 = Some (None, s') \<and>
              trace s' = trace s4 @ concat (map (chunkEffects data options) [Suc j..<?N])"
    using Suc.hyps(2) jN by (intro Suc.hyps(1) Suc.prems(1) we4 Suc.prems(3,4)) simp_all
  then obtain s' where s': "sendLoop user False data options (Suc j) ?sent' s4 = Some (None, s')"
    "trace s' = trace s4 @ concat (map (chunkEffects data options) [Suc j..<?N])"
    by blast
  have "trace s' = trace s @ concat (map (chunkEffects data options) [j..<?N])"
    using jN by (simp add: s'(2) tr4 upt_conv_Cons)
  with s'(1) unfold show ?case
    by simp
qed


lemma roundDouble_same: "0 < a \<Longrightarrow> roundDouble a a = (2 ^ 52, - 52)"
  by (simp add: roundDouble_def floorLog2_def Let_def)

lemma percent_hundred: "Math_round (roundDouble (2 ^ 52 * 100 * 2 ^ nat (- 52)) (2 ^ nat (- (- 52)))) = 100"
  by code_simp

text \<open>
  The percentage is the one of double arithmetic: 23 of 40 bytes are 57.5 percent,
  but the product computed in doubles is just below that and is reported as 57.
\<close>

lemma percent_in_doubles: "percent 23 40 = 57"
  by code_simp

lemma percent_full: "0 < n \<Longrightarrow> percent n n = 100"
  using percent_hundred by (simp add: percent_def roundDouble_same)

lemma concat_chunks:
  "concat (map (\<lambda>i. take b (drop (i * b) data)) [0..<k]) = take (k * b) data"
proof (induction k)
  case 0
  then show ?case by simp
next
  case (Suc k)
  have "take (k * b) data @ take b (drop (k * b) data) = take (k * b + b) data"
    by (simp add: take_add)
  with Suc show ?case by (simp add: add.commute)
qed

lemma writesOf_append [simp]: "writesOf (xs @ ys) = writesOf xs @ writesOf ys"
  by (simp add: writesOf_def)

lemma writesOf_chunkEffects:
  "writesOf (chunkEffects data options i)
     = [take (nat \<lfloor>throttleBytes options\<rfloor>) (drop (i * nat \<lfloor>throttleBytes options\<rfloor>) data)]"
  by (simp add: chunkEffects_def writesOf_def Let_def)

lemma writesOf_concat_chunkEffects:
  "writesOf (concat (map (chunkEffects data options) is))
     = map (\<lambda>i. take (nat \<lfloor>throttleBytes options\<rfloor>) (drop (i * nat \<lfloor>throttleBytes options\<rfloor>) data)) is"
  by (induction "is") (simp_all add: writesOf_chunkEffects, simp add: writesOf_def)

lemma handleFileSend_run:
  assumes "port s \<noteq> None" "writable (the (port s))" "\<not> isPaused s"
    and "\<forall>k. writeError s k = None" "1 \<le> throttleBytes options"
    and "throttleBytes options \<in> \<int>"
    and "of_nat (length (file_contents file)) + throttleBytes options < 2 ^ 53"
  shows "\<exists>s'. handleFileSend user file options s = Some s' \<and>
              trace s' = trace s @ concat (map (chunkEffects (file_contents file) options)
                                             [0..<chunkCount (file_contents file) options])"
proof -
  let ?data = "file_contents file"
  define s1 where "s1 = addLog Info []
     (msgFileStart @ file_name file @ str '' ('' @ numToString 10 (length ?data) @ msgBytesUnit) s"
  have "\<forall>k. writeError s1 k = None"
    using assms(4) by (simp add: s1_def)
  from sendLoop_run [OF assms(5) this assms(6,7), of 0 0 user]
  obtain s2 where s2: "sendLoop user False ?data options 0 0 s1 = Some (None, s2)"
    "trace s2 = trace s1 @ concat (map (chunkEffects ?data options) [0..<chunkCount ?data options])"
    by auto
  have "handleFileSend user file options s = Some (addLog Info [] msgFileDone s2)"
    using assms(1-3) by (auto simp: handleFileSend_def Let_def s1_def [symmetric] s2(1))
  then show ?thesis
    by (simp add: s2(2) s1_def)
qed



text \<open>
  Claim C5 fails on the code. The loop and the test after it read \<open>isPaused\<close> of
  the closure, which is the value at the time of the call, not \<open>isPausedRef\<close>. When
  the user pauses while the third of ten writes is pending, the send still makes all
  ten writes, the state is paused at the end, and the log holds the start entry, the
  entry of the pause and the completion entry: no abort entry, a completion entry.
\<close>

theorem pause_during_file_send_ignored:
  "\<exists>s'. handleFileSend pressDuringThird tenBytes byteWise connectedState = Some s' \<and>
     isPaused s' \<and>
     writesOf (trace s') = [[1], [2], [3], [4], [5], [6], [7], [8], [9], [10]] \<and>
     map log_type (logs s') = [Info, Info, Info] \<and>
     log_text (logs s' ! 1) = msgPaused \<and>
     log_text (logs s' ! 2) = msgFileDone"
  by (simp add: handleFileSend_def sendLoop.simps tenBytes_def byteWise_def connectedState_def
      freshState_def initialState_def Let_def writer_write_def neverFails_def pressDuringThird_def
      slice_js_def togglePause_def setIsPaused_def logs_addLog newLog_def writesOf_def
      del: drop_append writesOf_append)

end
